theory Spec2Isabelle
  imports Main "HOL-Library.Sublist"
begin

section \<open>MHwPlistSplitter: splitting a sprite sheet by a property list\<close>

text \<open>
  A shallow embedding of \<^verbatim>\<open>MHwPlistSplitter.py\<close>. Exceptions are values of the type
  \<open>error\<close>; a function that can raise returns \<open>error + 'a\<close> with \<open>Inl\<close> for the
  exception. Python strings are \<open>string\<close>, Python integers are \<open>int\<close>. The builtins the
  program calls (\<^verbatim>\<open>str.strip\<close>, \<^verbatim>\<open>str.split\<close>, \<^verbatim>\<open>float\<close>, \<^verbatim>\<open>int\<close>, \<^verbatim>\<open>in\<close>,
  indexing, \<^verbatim>\<open>pathlib.Path.stem\<close>) are modelled after CPython, on ASCII text.

  The file dialogs, the reading of the two files and the console are outside the model:
  \<^verbatim>\<open>parse_plist\<close> and \<^verbatim>\<open>split_sprites\<close> take the outcome of \<^verbatim>\<open>plistlib.load\<close> and of
  \<^verbatim>\<open>Image.open\<close> as arguments, the output directory is a map from file names to
  images, and the lines printed are collected in a list (printing itself is taken to
  succeed). Only exceptions of the class \<^verbatim>\<open>Exception\<close> are modelled, the ones the
  \<^verbatim>\<open>try\<close> block of the loop catches.
\<close>

subsection \<open>Exceptions\<close>

datatype error =
    UnsupportedFormat         \<comment> \<open>\<^verbatim>\<open>ValueError("Unsupported plist format")\<close>\<close>
  | CannotParse string        \<comment> \<open>\<^verbatim>\<open>ValueError(f"Cannot parse rect string: {rect_str}")\<close>\<close>
  | FloatSyntax string        \<comment> \<open>\<^verbatim>\<open>ValueError\<close>: could not convert string to float\<close>
  | NotEnoughValues nat       \<comment> \<open>\<^verbatim>\<open>ValueError\<close>: not enough values to unpack (expected 2, got n)\<close>
  | TooManyValues             \<comment> \<open>\<^verbatim>\<open>ValueError\<close>: too many values to unpack (expected 2)\<close>
  | FloatNaN                  \<comment> \<open>\<^verbatim>\<open>ValueError\<close>: cannot convert float NaN to integer\<close>
  | FloatInfinity             \<comment> \<open>\<^verbatim>\<open>OverflowError\<close>: cannot convert float infinity to integer\<close>
  | AttributeError            \<comment> \<open>the object has no such method\<close>
  | TypeError                 \<comment> \<open>the operation does not apply to the object's type\<close>
  | KeyError string           \<comment> \<open>the dictionary has no such key\<close>
  | LoadError string          \<comment> \<open>a file could not be read or decoded\<close>
  | ImagingError string       \<comment> \<open>an exception raised by the imaging library\<close>

subsection \<open>String builtins\<close>

text \<open>\<^verbatim>\<open>s.strip(chars)\<close>: drop the leading and the trailing characters that occur in
  \<open>chars\<close>.\<close>

definition strip :: "string \<Rightarrow> string \<Rightarrow> string" where
  "strip chars s =
     rev (dropWhile (\<lambda>c. c \<in> set chars) (rev (dropWhile (\<lambda>c. c \<in> set chars) s)))"

text \<open>\<^verbatim>\<open>s.split(sep)\<close> for a non-empty separator: cut at every occurrence of \<open>sep\<close>, found
  from the left and not overlapping. (Python raises on an empty separator; the program
  only passes the literals \<^verbatim>\<open>'},{'\<close> and \<^verbatim>\<open>','\<close>.)\<close>

fun cons_first :: "char \<Rightarrow> string list \<Rightarrow> string list" where
  "cons_first c [] = [[c]]"
| "cons_first c (p # ps) = (c # p) # ps"

function split :: "string \<Rightarrow> string \<Rightarrow> string list" where
  "split sep [] = [[]]"
| "split sep (c # cs) =
     (if sep \<noteq> [] \<and> prefix sep (c # cs)
      then [] # split sep (drop (length sep) (c # cs))
      else cons_first c (split sep cs))"
  by pat_completeness auto
termination
  by (relation "measure (\<lambda>(sep, s). length s)") auto

subsection \<open>The builtins \<^verbatim>\<open>float\<close> and \<^verbatim>\<open>int\<close>\<close>

text \<open>A Python float is a binary64 number: \<open>Finite m e\<close> stands for \<open>m * 2 ^ e\<close>.\<close>

datatype pyfloat = Finite int int | Infinity bool | NaN

text \<open>The whitespace that \<^verbatim>\<open>float\<close> ignores around an ASCII string: tab, line feed,
  vertical tab, form feed, carriage return and space.\<close>

definition is_space :: "char \<Rightarrow> bool" where
  "is_space c = (c \<in> set [CHR 0x09, CHR 0x0A, CHR 0x0B, CHR 0x0C, CHR 0x0D, CHR 0x20])"

definition is_digit :: "char \<Rightarrow> bool" where
  "is_digit c = (c \<in> set ''0123456789'')"

definition digit_val :: "char \<Rightarrow> int" where
  "digit_val c = of_char c - 48"

definition dec :: "string \<Rightarrow> int" where
  "dec ds = foldl (\<lambda>n c. 10 * n + digit_val c) 0 ds"

definition strip_space :: "string \<Rightarrow> string" where
  "strip_space s = rev (dropWhile is_space (rev (dropWhile is_space s)))"

text \<open>Underscores in a numeric literal: allowed only between two digits, and removed
  (CPython's \<^verbatim>\<open>_Py_string_to_number_with_underscores\<close>; \<open>prev\<close> is the character
  before, NUL at the start).\<close>

fun underscores :: "char \<Rightarrow> string \<Rightarrow> string option" where
  "underscores prev [] = (if prev = CHR ''_'' then None else Some [])"
| "underscores prev (c # cs) =
     (if c = CHR ''_'' then (if is_digit prev then underscores c cs else None)
      else if prev = CHR ''_'' \<and> \<not> is_digit c then None
      else map_option ((#) c) (underscores c cs))"

text \<open>An unsigned decimal literal: digits with an optional point, at least one digit,
  and an optional exponent. The result \<open>(n, k)\<close> stands for \<open>n * 10 ^ k\<close>.\<close>

definition exponent :: "string \<Rightarrow> int option" where
  "exponent s =
     (let neg = (s \<noteq> [] \<and> hd s = CHR ''-'');
          ds = (if s \<noteq> [] \<and> (hd s = CHR ''-'' \<or> hd s = CHR ''+'') then tl s else s)
      in if ds \<noteq> [] \<and> list_all is_digit ds
         then Some (if neg then - dec ds else dec ds) else None)"

definition decimal :: "string \<Rightarrow> (int \<times> int) option" where
  "decimal s =
     (let ip = takeWhile is_digit s;
          r1 = dropWhile is_digit s;
          pt = (r1 \<noteq> [] \<and> hd r1 = CHR ''.'');
          fp = (if pt then takeWhile is_digit (tl r1) else []);
          r2 = (if pt then dropWhile is_digit (tl r1) else r1)
      in if ip = [] \<and> fp = [] then None
         else if r2 = [] then Some (dec (ip @ fp), - int (length fp))
         else if hd r2 = CHR ''e'' \<or> hd r2 = CHR ''E''
         then (case exponent (tl r2) of None \<Rightarrow> None
               | Some x \<Rightarrow> Some (dec (ip @ fp), x - int (length fp)))
         else None)"

text \<open>Rounding the fraction \<open>num / den\<close> to the nearest binary64 number, ties to even.
  \<open>bit_length\<close> is Python's \<^verbatim>\<open>int.bit_length\<close>, used on positive numbers only.
  The result \<open>(m, e)\<close> stands for \<open>m * 2 ^ e\<close>; \<open>None\<close> is overflow.\<close>

function bit_length :: "int \<Rightarrow> nat" where
  "bit_length n = (if n \<le> 0 then 0 else Suc (bit_length (n div 2)))"
  by pat_completeness auto
termination
  by (relation "measure nat") auto

declare bit_length.simps [simp del]

definition round_half_even :: "int \<Rightarrow> int \<Rightarrow> int" where
  "round_half_even n d =
     (let q = n div d; r = n mod d
      in if 2 * r < d then q else if d < 2 * r then q + 1
         else if even q then q else q + 1)"

definition to_double :: "int \<Rightarrow> int \<Rightarrow> (int \<times> int) option" where
  "to_double num den =
     (if num = 0 then Some (0, 0)
      else
        let d = int (bit_length num) - int (bit_length den);
            k = (if den * 2 ^ nat d \<le> num * 2 ^ nat (- d) then d else d - 1);
            e = max (k - 52) (- 1074);
            m = round_half_even (num * 2 ^ nat (- e)) (den * 2 ^ nat e)
        in if 971 < e \<or> (e = 971 \<and> 2 ^ 53 \<le> m) then None else Some (m, e))"

definition nearest_double :: "bool \<Rightarrow> int \<times> int \<Rightarrow> pyfloat" where
  "nearest_double neg v =
     (case v of (n, k) \<Rightarrow>
        (case to_double (n * 10 ^ nat k) (10 ^ nat (- k)) of
           None \<Rightarrow> Infinity neg
         | Some (m, e) \<Rightarrow> Finite (if neg then - m else m) e))"

definition lower :: "char \<Rightarrow> char" where
  "lower c = (if c \<in> set ''ABCDEFGHIJKLMNOPQRSTUVWXYZ''
              then char_of (of_char c + (32::nat)) else c)"

text \<open>\<^verbatim>\<open>float(s)\<close> for a string: surrounding whitespace is ignored, then an optional
  sign, then \<^verbatim>\<open>inf\<close>, \<^verbatim>\<open>infinity\<close> or \<^verbatim>\<open>nan\<close> in any case, or a decimal literal.\<close>

definition py_float :: "string \<Rightarrow> error + pyfloat" where
  "py_float s =
     (case underscores (CHR 0x00) (strip_space s) of
        None \<Rightarrow> Inl (FloatSyntax s)
      | Some t \<Rightarrow>
          let neg = (t \<noteq> [] \<and> hd t = CHR ''-'');
              u = (if t \<noteq> [] \<and> (hd t = CHR ''-'' \<or> hd t = CHR ''+'') then tl t else t)
          in if map lower u = ''inf'' \<or> map lower u = ''infinity'' then Inr (Infinity neg)
             else if map lower u = ''nan'' then Inr NaN
             else (case decimal u of
                     None \<Rightarrow> Inl (FloatSyntax s)
                   | Some v \<Rightarrow> Inr (nearest_double neg v)))"

text \<open>\<^verbatim>\<open>int(x)\<close> for a float: truncation towards zero.\<close>

fun py_int :: "pyfloat \<Rightarrow> error + int" where
  "py_int (Finite m e) =
     Inr (if 0 \<le> e then m * 2 ^ nat e
          else if 0 \<le> m then m div 2 ^ nat (- e)
          else - ((- m) div 2 ^ nat (- e)))"
| "py_int (Infinity neg) = Inl FloatInfinity"
| "py_int NaN = Inl FloatNaN"

subsection \<open>\<^verbatim>\<open>parse_rect_string\<close>\<close>

text \<open>\<^verbatim>\<open>a, b = map(float, tokens)\<close>: the conversions run one token at a time while the
  two targets are filled, and once more to see that nothing is left.\<close>

fun unpack2 :: "string list \<Rightarrow> error + (pyfloat \<times> pyfloat)" where
  "unpack2 [] = Inl (NotEnoughValues 0)"
| "unpack2 [a] = (case py_float a of Inl e \<Rightarrow> Inl e | Inr x \<Rightarrow> Inl (NotEnoughValues 1))"
| "unpack2 [a, b] =
     (case py_float a of Inl e \<Rightarrow> Inl e | Inr x \<Rightarrow>
      (case py_float b of Inl e \<Rightarrow> Inl e | Inr y \<Rightarrow> Inr (x, y)))"
| "unpack2 (a # b # c # rest) =
     (case py_float a of Inl e \<Rightarrow> Inl e | Inr x \<Rightarrow>
      (case py_float b of Inl e \<Rightarrow> Inl e | Inr y \<Rightarrow>
       (case py_float c of Inl e \<Rightarrow> Inl e | Inr z \<Rightarrow> Inl TooManyValues)))"

type_synonym rect = "int \<times> int \<times> int \<times> int"

definition parse_rect_str :: "string \<Rightarrow> error + rect" where
  "parse_rect_str rect_str =
     (let rect_str' = strip ''{}'' rect_str;
          parts = split ''},{'' rect_str'
      in if length parts = 2 then
           (case unpack2 (split '','' (strip ''{}'' (parts ! 0))) of Inl e \<Rightarrow> Inl e
            | Inr (x, y) \<Rightarrow>
           (case unpack2 (split '','' (strip ''{}'' (parts ! 1))) of Inl e \<Rightarrow> Inl e
            | Inr (w, h) \<Rightarrow>
           (case py_int x of Inl e \<Rightarrow> Inl e | Inr xi \<Rightarrow>
           (case py_int y of Inl e \<Rightarrow> Inl e | Inr yi \<Rightarrow>
           (case py_int w of Inl e \<Rightarrow> Inl e | Inr wi \<Rightarrow>
           (case py_int h of Inl e \<Rightarrow> Inl e | Inr hi \<Rightarrow> Inr (xi, yi, wi, hi)))))))
         else Inl (CannotParse rect_str'))"

subsection \<open>Property lists\<close>

text \<open>What \<^verbatim>\<open>plistlib.load\<close> returns: dictionaries with string keys (an association
  list in document order; a Python dictionary holds each key once), arrays, strings,
  integers, reals, booleans, data, dates and UIDs.\<close>

datatype plist =
    PDict "(string \<times> plist) list"
  | PArray "plist list"
  | PString string
  | PInteger int
  | PReal pyfloat
  | PBool bool
  | PData string
  | PDate int
  | PUID int

fun contains :: "string \<Rightarrow> string \<Rightarrow> bool" where
  "contains k [] = (k = [])"
| "contains k (c # cs) = (prefix k (c # cs) \<or> contains k cs)"

text \<open>\<^verbatim>\<open>key in obj\<close> for a string key: a key of a dictionary, an element of an array,
  a substring of a string; a \<^verbatim>\<open>TypeError\<close> on every other value.\<close>

fun py_in :: "string \<Rightarrow> plist \<Rightarrow> error + bool" where
  "py_in k (PDict kvs) = Inr (k \<in> set (map fst kvs))"
| "py_in k (PArray xs) = Inr (PString k \<in> set xs)"
| "py_in k (PString s) = Inr (contains k s)"
| "py_in k v = Inl TypeError"

text \<open>\<^verbatim>\<open>obj[key]\<close> for a string key: the value of the key in a dictionary; a
  \<^verbatim>\<open>TypeError\<close> on every other value.\<close>

fun py_getitem :: "plist \<Rightarrow> string \<Rightarrow> error + plist" where
  "py_getitem (PDict kvs) k =
     (case map_of kvs k of None \<Rightarrow> Inl (KeyError k) | Some v \<Rightarrow> Inr v)"
| "py_getitem v k = Inl TypeError"

text \<open>\<^verbatim>\<open>obj.items()\<close>: the entries of a dictionary in order; an \<^verbatim>\<open>AttributeError\<close>
  on every other value.\<close>

fun py_items :: "plist \<Rightarrow> error + (string \<times> plist) list" where
  "py_items (PDict kvs) = Inr kvs"
| "py_items v = Inl AttributeError"

subsection \<open>\<^verbatim>\<open>parse_plist\<close>\<close>

text \<open>The argument is the outcome of opening the file and of \<^verbatim>\<open>plistlib.load\<close>: the
  decoded document, or the exception raised.\<close>

definition parse_plist :: "error + plist \<Rightarrow> error + plist" where
  "parse_plist loaded =
     (case loaded of Inl e \<Rightarrow> Inl e
      | Inr plist_data \<Rightarrow>
     (case py_in ''frames'' plist_data of Inl e \<Rightarrow> Inl e
      | Inr True \<Rightarrow> py_getitem plist_data ''frames''
      | Inr False \<Rightarrow>
     (case py_in ''metadata'' plist_data of Inl e \<Rightarrow> Inl e
      | Inr False \<Rightarrow> Inl UnsupportedFormat
      | Inr True \<Rightarrow>
     (case py_getitem plist_data ''metadata'' of Inl e \<Rightarrow> Inl e
      | Inr metadata \<Rightarrow>
     (case py_in ''frames'' metadata of Inl e \<Rightarrow> Inl e
      | Inr False \<Rightarrow> Inl UnsupportedFormat
      | Inr True \<Rightarrow> py_getitem metadata ''frames'')))))"

subsection \<open>\<^verbatim>\<open>parse_rect_string\<close> on a value of the property list\<close>

text \<open>The argument is whatever the property list holds: \<^verbatim>\<open>rect_str.strip('{}')\<close> is
  a \<^verbatim>\<open>TypeError\<close> on data (bytes) and an \<^verbatim>\<open>AttributeError\<close> on a value with no
  method \<^verbatim>\<open>strip\<close>.\<close>

fun parse_rect_string :: "plist \<Rightarrow> error + rect" where
  "parse_rect_string (PString s) = parse_rect_str s"
| "parse_rect_string (PData b) = Inl TypeError"
| "parse_rect_string v = Inl AttributeError"

subsection \<open>\<^verbatim>\<open>Path(sprite_name).stem\<close>\<close>

text \<open>\<^verbatim>\<open>pathlib\<close> with POSIX paths (the slash is the only separator): the components
  are the pieces between slashes, without the empty ones and the single dots;
  \<open>path_name\<close> is the last component (empty when there is none); the stem is the name
  up to its last dot, unless that dot is the first or the last character of the name.\<close>

definition path_name :: "string \<Rightarrow> string" where
  "path_name p =
     (case rev (filter (\<lambda>c. c \<noteq> [] \<and> c \<noteq> ''.'') (split ''/'' p)) of
        [] \<Rightarrow> []
      | n # ns \<Rightarrow> n)"

definition rfind_dot :: "string \<Rightarrow> nat option" where
  "rfind_dot name =
     (if CHR ''.'' \<in> set name
      then Some (length name - 1 - length (takeWhile (\<lambda>c. c \<noteq> CHR ''.'') (rev name)))
      else None)"

definition stem :: "string \<Rightarrow> string" where
  "stem p =
     (let name = path_name p
      in case rfind_dot name of
           None \<Rightarrow> name
         | Some i \<Rightarrow> if 0 < i \<and> i < length name - 1 then take i name else name)"

subsection \<open>The imaging library\<close>

text \<open>The program calls two operations of the imaging library: \<^verbatim>\<open>img.crop(box)\<close> and
  \<^verbatim>\<open>sprite.save(path)\<close>. They are parameters of the model: \<open>crop\<close> returns the cropped
  image or the exception raised; \<open>save\<close> returns the output directory (a map from file
  names to the images written) after the file is written, or the exception raised (the
  directory is then taken to be as it was).\<close>

type_synonym box = "int \<times> int \<times> int \<times> int"

record 'img imaging =
  crop :: "'img \<Rightarrow> box \<Rightarrow> error + 'img"
  save :: "(string \<rightharpoonup> 'img) \<Rightarrow> string \<Rightarrow> 'img \<Rightarrow> error + (string \<rightharpoonup> 'img)"

subsection \<open>\<^verbatim>\<open>split_sprites\<close>\<close>

text \<open>What the run prints for an entry, and the state of the loop: the counter, the
  lines printed so far and the output directory.\<close>

datatype event =
    Saved string                    \<comment> \<open>\<^verbatim>\<open>Saved: {sprite_filename}\<close>\<close>
  | Skipping string                 \<comment> \<open>\<^verbatim>\<open>Skipping {sprite_name}: no frame data found\<close>\<close>
  | ErrorProcessing string error    \<comment> \<open>\<^verbatim>\<open>Error processing {sprite_name}: {e}\<close>\<close>

record 'img run =
  count :: nat
  printed :: "event list"
  output_dir :: "string \<rightharpoonup> 'img"

text \<open>The choice of the rectangle string of an entry; \<open>None\<close> is the branch that prints
  the skipping line and continues with the next entry.\<close>

fun frame_str_of :: "plist \<Rightarrow> plist option" where
  "frame_str_of (PDict d) =
     (case map_of d ''frame'' of Some v \<Rightarrow> Some v
      | None \<Rightarrow> (case map_of d ''textureRect'' of Some v \<Rightarrow> Some v | None \<Rightarrow> None))"
| "frame_str_of sprite_data = Some sprite_data"

text \<open>\<^verbatim>\<open>Path(sprite_name).stem + ".png"\<close>\<close>

definition sprite_filename :: "string \<Rightarrow> string" where
  "sprite_filename sprite_name = stem sprite_name @ ''.png''"

text \<open>The statements of the \<^verbatim>\<open>try\<close> block after the choice of the rectangle string.\<close>

definition extract_sprite ::
  "'img imaging \<Rightarrow> 'img \<Rightarrow> (string \<rightharpoonup> 'img) \<Rightarrow> string \<Rightarrow> plist
     \<Rightarrow> error + (string \<times> (string \<rightharpoonup> 'img))" where
  "extract_sprite lib img dir sprite_name frame_str =
     (case parse_rect_string frame_str of Inl e \<Rightarrow> Inl e
      | Inr (x, y, w, h) \<Rightarrow>
     (case crop lib img (x, y, x + w, y + h) of Inl e \<Rightarrow> Inl e
      | Inr sprite \<Rightarrow>
     (case save lib dir (sprite_filename sprite_name) sprite of Inl e \<Rightarrow> Inl e
      | Inr dir' \<Rightarrow> Inr (sprite_filename sprite_name, dir'))))"

text \<open>One iteration of the loop: every exception of the \<^verbatim>\<open>try\<close> block is caught and
  printed.\<close>

definition process_entry ::
  "'img imaging \<Rightarrow> 'img \<Rightarrow> 'img run \<Rightarrow> string \<times> plist \<Rightarrow> 'img run" where
  "process_entry lib img st entry =
     (case entry of (sprite_name, sprite_data) \<Rightarrow>
        (case frame_str_of sprite_data of
           None \<Rightarrow> st\<lparr>printed := printed st @ [Skipping sprite_name]\<rparr>
         | Some frame_str \<Rightarrow>
             (case extract_sprite lib img (output_dir st) sprite_name frame_str of
                Inl e \<Rightarrow> st\<lparr>printed := printed st @ [ErrorProcessing sprite_name e]\<rparr>
              | Inr (filename, dir') \<Rightarrow>
                  st\<lparr>count := count st + 1,
                     printed := printed st @ [Saved filename],
                     output_dir := dir'\<rparr>)))"

definition split_loop ::
  "'img imaging \<Rightarrow> 'img \<Rightarrow> 'img run \<Rightarrow> (string \<times> plist) list \<Rightarrow> 'img run" where
  "split_loop lib img st entries = foldl (process_entry lib img) st entries"

text \<open>\<^verbatim>\<open>split_sprites\<close>: \<open>plist_file\<close> and \<open>png_file\<close> are the outcomes of reading the two
  files (\<^verbatim>\<open>plistlib.load\<close> and \<^verbatim>\<open>Image.open\<close>), \<open>dir\<close> is the output directory as the
  run finds it. An \<open>Inl\<close> is an exception that leaves \<^verbatim>\<open>split_sprites\<close>.\<close>

definition split_sprites ::
  "'img imaging \<Rightarrow> error + plist \<Rightarrow> error + 'img \<Rightarrow> (string \<rightharpoonup> 'img) \<Rightarrow> error + 'img run" where
  "split_sprites lib plist_file png_file dir =
     (case parse_plist plist_file of Inl e \<Rightarrow> Inl e
      | Inr frames \<Rightarrow>
     (case png_file of Inl e \<Rightarrow> Inl e
      | Inr img \<Rightarrow>
     (case py_items frames of Inl e \<Rightarrow> Inl e
      | Inr entries \<Rightarrow>
          Inr (split_loop lib img \<lparr>count = 0, printed = [], output_dir = dir\<rparr> entries))))"

text \<open>\<^verbatim>\<open>main\<close> once both files are chosen: the exit status of the process.\<close>

definition main_status ::
  "'img imaging \<Rightarrow> error + plist \<Rightarrow> error + 'img \<Rightarrow> (string \<rightharpoonup> 'img) \<Rightarrow> nat" where
  "main_status lib plist_file png_file dir =
     (case split_sprites lib plist_file png_file dir of Inl e \<Rightarrow> 1 | Inr st \<Rightarrow> 0)"

subsection \<open>The imaging library, as the specification describes it\<close>

text \<open>An image: its size and the pixel (red, green, blue, alpha) at each position.\<close>

type_synonym pixel = "nat \<times> nat \<times> nat \<times> nat"

record image =
  width :: int
  height :: int
  pixel_at :: "int \<Rightarrow> int \<Rightarrow> pixel"

text \<open>Modelled from the spec: \<^verbatim>\<open>Image.crop\<close> belongs to the imaging library, which is
  not part of the repository. The crop of the box \<open>(x0, y0, x1, y1)\<close> (left, upper, right,
  lower) is a new image of \<open>x1 - x0\<close> by \<open>y1 - y0\<close> pixels; a position of the box outside
  the source is filled with the transparent pixel, it is never an error. (A box with
  \<open>x1 < x0\<close> or \<open>y1 < y0\<close> has no such image; the library raises.)\<close>

definition image_crop :: "image \<Rightarrow> box \<Rightarrow> error + image" where
  "image_crop img b =
     (case b of (x0, y0, x1, y1) \<Rightarrow>
        if x1 < x0 \<or> y1 < y0 then Inl (ImagingError ''inverted box'')
        else Inr \<lparr>width = x1 - x0, height = y1 - y0,
                  pixel_at = (\<lambda>i j.
                    if 0 \<le> x0 + i \<and> x0 + i < width img \<and> 0 \<le> y0 + j \<and> y0 + j < height img
                    then pixel_at img (x0 + i) (y0 + j) else (0, 0, 0, 0))\<rparr>)"

text \<open>Modelled from the spec: \<^verbatim>\<open>Image.save\<close> belongs to the imaging library, which is
  not part of the repository. A rect is usable only with a positive width and a positive
  height, and an unusable rect is an error of its entry: an image with no pixels cannot
  be written (the library's PNG encoder refuses it). Any other image is written under
  the file name, replacing a file of that name.\<close>

definition image_save ::
  "(string \<rightharpoonup> image) \<Rightarrow> string \<Rightarrow> image \<Rightarrow> error + (string \<rightharpoonup> image)" where
  "image_save dir path sprite =
     (if width sprite \<le> 0 \<or> height sprite \<le> 0 then Inl (ImagingError ''empty image'')
      else Inr (dir(path \<mapsto> sprite)))"

definition pillow :: "image imaging" where
  "pillow = \<lparr>crop = image_crop, save = image_save\<rparr>"

subsection \<open>Notions of the specification\<close>

text \<open>The rectangle string \<^verbatim>\<open>{{x,y},{w,h}}\<close> of four components, and its body without
  the outer braces.\<close>

definition rect_body :: "string \<Rightarrow> string \<Rightarrow> string \<Rightarrow> string \<Rightarrow> string" where
  "rect_body x y w h = x @ '','' @ y @ ''},{'' @ w @ '','' @ h"

definition rect_text :: "string \<Rightarrow> string \<Rightarrow> string \<Rightarrow> string \<Rightarrow> string" where
  "rect_text x y w h = ''{{'' @ rect_body x y w h @ ''}}''"

text \<open>A string of braces; a component with no brace and no comma; a numeral: one or more
  digits, possibly followed by a point and one or more digits.\<close>

definition braces :: "string \<Rightarrow> bool" where
  "braces s = list_all (\<lambda>c. c \<in> set ''{}'') s"

definition plain :: "string \<Rightarrow> bool" where
  "plain t = list_all (\<lambda>c. c \<notin> set ''{},'') t"

text \<open>The rectangle string with whitespace about its braces. \<open>pre\<close> holds the opening
  braces, with whitespace before or between them, and \<open>post\<close> the closing braces, with
  whitespace between or after them; \<open>s1\<close> and \<open>s2\<close> are the whitespace in the separator,
  after its closing and before its opening brace. Whitespace next to a component is part
  of the component, so \<open>pre\<close> ends and \<open>post\<close> begins with a brace.\<close>

definition open_braces :: "string \<Rightarrow> bool" where
  "open_braces pre =
     (list_all (\<lambda>c. c = CHR ''{'' \<or> is_space c) pre \<and> (pre \<noteq> [] \<longrightarrow> last pre = CHR ''{''))"

definition close_braces :: "string \<Rightarrow> bool" where
  "close_braces post =
     (list_all (\<lambda>c. c = CHR ''}'' \<or> is_space c) post \<and> (post \<noteq> [] \<longrightarrow> hd post = CHR ''}''))"

definition rect_spaced ::
  "string \<Rightarrow> string \<Rightarrow> string \<Rightarrow> string \<Rightarrow> string \<Rightarrow> string \<Rightarrow> string \<Rightarrow> string \<Rightarrow> string" where
  "rect_spaced pre x y s1 s2 w h post =
     pre @ x @ '','' @ y @ ''}'' @ s1 @ '','' @ s2 @ ''{'' @ w @ '','' @ h @ post"

definition is_numeral :: "string \<Rightarrow> bool" where
  "is_numeral t =
     (let ip = takeWhile is_digit t; r = dropWhile is_digit t
      in ip \<noteq> [] \<and> (r = [] \<or> (hd r = CHR ''.'' \<and> tl r \<noteq> [] \<and> list_all is_digit (tl r))))"

text \<open>The value of a numeral, as \<open>(n, k)\<close> for \<open>n * 10 ^ k\<close>: its digits, and minus the
  number of digits after the point.\<close>

definition numeral_value :: "string \<Rightarrow> int \<times> int" where
  "numeral_value t =
     (let ip = takeWhile is_digit t; fp = tl (dropWhile is_digit t)
      in (dec (ip @ fp), - int (length fp)))"

text \<open>The number of digits of a numeral before its point.\<close>

definition int_digits :: "string \<Rightarrow> nat" where
  "int_digits t = length (takeWhile is_digit t)"

text \<open>\<^verbatim>\<open>int(float(t))\<close>\<close>

definition int_float :: "string \<Rightarrow> error + int" where
  "int_float t = (case py_float t of Inl e \<Rightarrow> Inl e | Inr f \<Rightarrow> py_int f)"

text \<open>What \<^verbatim>\<open>parse_rect_string\<close> does with the four components once it has them: the
  four conversions to float in order, then the four truncations.\<close>

definition convert :: "string \<Rightarrow> string \<Rightarrow> string \<Rightarrow> string \<Rightarrow> error + rect" where
  "convert x y w h =
     (case unpack2 [x, y] of Inl e \<Rightarrow> Inl e
      | Inr (fx, fy) \<Rightarrow>
     (case unpack2 [w, h] of Inl e \<Rightarrow> Inl e
      | Inr (fw, fh) \<Rightarrow>
     (case py_int fx of Inl e \<Rightarrow> Inl e | Inr xi \<Rightarrow>
     (case py_int fy of Inl e \<Rightarrow> Inl e | Inr yi \<Rightarrow>
     (case py_int fw of Inl e \<Rightarrow> Inl e | Inr wi \<Rightarrow>
     (case py_int fh of Inl e \<Rightarrow> Inl e | Inr hi \<Rightarrow> Inr (xi, yi, wi, hi)))))))"

text \<open>The results of a run are the lines of the entries that were not skipped; the
  frame records of a frames dictionary are the entries that have frame data. A result
  belongs to an entry when it is the saved line of the entry's file name or the error
  line of the entry's name.\<close>

fun is_result :: "event \<Rightarrow> bool" where
  "is_result (Skipping n) = False"
| "is_result ev = True"

definition frame_records :: "(string \<times> plist) list \<Rightarrow> (string \<times> plist) list" where
  "frame_records entries = filter (\<lambda>entry. frame_str_of (snd entry) \<noteq> None) entries"

fun is_saved :: "event \<Rightarrow> bool" where
  "is_saved (Saved f) = True"
| "is_saved ev = False"

text \<open>What a run over the entries is to print and to leave behind when each entry is
  handled on its own, from the output directory \<open>dir\<close>: an entry without frame data gives
  its skipping line, an entry whose extraction raises gives its error line with that
  exception, and neither changes the directory; an entry that is extracted gives its
  saved line and the directory with its file.\<close>

fun run_lines ::
  "'img imaging \<Rightarrow> 'img \<Rightarrow> (string \<rightharpoonup> 'img) \<Rightarrow> (string \<times> plist) list \<Rightarrow> event list" where
  "run_lines lib img dir [] = []"
| "run_lines lib img dir (entry # rest) =
     (case frame_str_of (snd entry) of
        None \<Rightarrow> Skipping (fst entry) # run_lines lib img dir rest
      | Some f \<Rightarrow>
          (case extract_sprite lib img dir (fst entry) f of
             Inl e \<Rightarrow> ErrorProcessing (fst entry) e # run_lines lib img dir rest
           | Inr r \<Rightarrow> Saved (fst r) # run_lines lib img (snd r) rest))"

fun run_dir ::
  "'img imaging \<Rightarrow> 'img \<Rightarrow> (string \<rightharpoonup> 'img) \<Rightarrow> (string \<times> plist) list \<Rightarrow> (string \<rightharpoonup> 'img)" where
  "run_dir lib img dir [] = dir"
| "run_dir lib img dir (entry # rest) =
     (case frame_str_of (snd entry) of
        None \<Rightarrow> run_dir lib img dir rest
      | Some f \<Rightarrow>
          (case extract_sprite lib img dir (fst entry) f of
             Inl e \<Rightarrow> run_dir lib img dir rest
           | Inr r \<Rightarrow> run_dir lib img (snd r) rest))"

fun result_of :: "event \<Rightarrow> string \<times> plist \<Rightarrow> bool" where
  "result_of (Saved f) entry = (f = sprite_filename (fst entry))"
| "result_of (ErrorProcessing n e) entry = (n = fst entry)"
| "result_of (Skipping n) entry = False"

subsection \<open>Example data\<close>

text \<open>A sheet of 4 by 2 opaque black pixels, and a frames dictionary with an entry that
  is extracted, a malformed one, one without frame data and a bare rectangle string.\<close>

definition example_image :: image where
  "example_image = \<lparr>width = 4, height = 2, pixel_at = (\<lambda>i j. (0, 0, 0, 255))\<rparr>"

definition example_frames :: "(string \<times> plist) list" where
  "example_frames =
     [(''a.png'', PDict [(''frame'', PString ''{{0,0},{2,2}}'')]),
      (''bad'', PString ''oops''),
      (''skip'', PDict [(''offset'', PString ''{0,0}'')]),
      (''b.png'', PString ''{{2,0},{2,2}}'')]"

section \<open>Properties\<close>

subsection \<open>Stripping and splitting\<close>

lemma trim_pad:
  assumes "\<forall>c\<in>set a. P c" "\<forall>c\<in>set b. P c"
  shows "rev (dropWhile P (rev (dropWhile P (a @ t @ b)))) = rev (dropWhile P (rev (dropWhile P t)))"
proof -
  have 1: "dropWhile P (a @ t @ b) = dropWhile P (t @ b)"
    by (rule dropWhile_append2) (use assms(1) in auto)
  show ?thesis
  proof (cases "\<forall>c\<in>set t. P c")
    case True
    then have 2: "dropWhile P (t @ b) = []" and 3: "dropWhile P t = []"
      using assms(2) by (simp_all add: dropWhile_eq_Nil_conv)
    show ?thesis unfolding 1 2 3 by simp
  next
    case False
    then obtain c where "c \<in> set t" "\<not> P c" by blast
    then have "dropWhile P (t @ b) = dropWhile P t @ b"
      by (rule dropWhile_append1)
    moreover have "dropWhile P (rev b @ rev (dropWhile P t)) = dropWhile P (rev (dropWhile P t))"
      by (rule dropWhile_append2) (use assms(2) in auto)
    ultimately show ?thesis
      unfolding 1 by simp
  qed
qed

lemma trim_id:
  assumes "s \<noteq> [] \<Longrightarrow> \<not> P (hd s) \<and> \<not> P (last s)"
  shows "rev (dropWhile P (rev (dropWhile P s))) = s"
proof (cases s)
  case Nil then show ?thesis by simp
next
  case (Cons c cs)
  with assms have h: "\<not> P (hd s)" "\<not> P (last s)" "s \<noteq> []" by auto
  then have 1: "dropWhile P s = s" by (simp add: dropWhile_eq_self_iff)
  have "hd (rev s) = last s" using h by (simp add: hd_rev)
  then have "dropWhile P (rev s) = rev s" using h by (simp add: dropWhile_eq_self_iff)
  with 1 show ?thesis by simp
qed

lemma split_no_sep:
  assumes "sep \<noteq> []" "hd sep \<notin> set s"
  shows "split sep s = [s]"
  using assms
proof (induction s)
  case Nil then show ?case by simp
next
  case (Cons c cs)
  then have "\<not> prefix sep (c # cs)" by (cases sep) auto
  with Cons show ?case by simp
qed

lemma split_at_sep:
  assumes "sep \<noteq> []" "hd sep \<notin> set a"
  shows "split sep (a @ sep @ b) = a # split sep b"
  using assms
proof (induction a)
  case Nil
  then obtain c cs where s: "sep = c # cs" by (cases sep) auto
  then have "split sep (sep @ b) = [] # split sep (drop (length sep) (sep @ b))"
    by simp
  then show ?case by simp
next
  case (Cons c cs)
  then have "\<not> prefix sep (c # cs @ sep @ b)" by (cases sep) auto
  with Cons show ?case by simp
qed

lemma split_single:
  "split [c] (a @ c # b) = split [c] a @ split [c] b"
proof (induction a)
  case Nil show ?case by simp
next
  case (Cons x xs)
  have ne: "split [c] xs \<noteq> []" by (cases xs) (auto, metis cons_first.elims list.distinct(1))
  show ?case
  proof (cases "x = c")
    case True with Cons show ?thesis by simp
  next
    case False
    with Cons ne show ?thesis by (cases "split [c] xs") auto
  qed
qed

lemma plainD:
  assumes "plain t"
  shows "CHR ''{'' \<notin> set t" "CHR ''}'' \<notin> set t" "CHR '','' \<notin> set t"
  using assms unfolding plain_def list_all_iff by fastforce+

lemma strip_pad:
  assumes "braces l" "braces r"
  shows "strip ''{}'' (l @ s @ r) = strip ''{}'' s"
  unfolding strip_def
  by (rule trim_pad) (use assms in \<open>auto simp: braces_def list_all_iff\<close>)

lemma strip_pair:
  assumes "plain a" "plain b"
  shows "strip ''{}'' (a @ '','' @ b) = a @ '','' @ b"
  unfolding strip_def
proof (rule trim_id)
  assume "a @ '','' @ b \<noteq> []"
  have "hd (a @ '','' @ b) \<in> set a \<union> {CHR '',''}"
    by (cases a) auto
  moreover have "last (a @ '','' @ b) \<in> set b \<union> {CHR '',''}"
    by (cases b rule: rev_cases) auto
  moreover have "\<forall>c \<in> set a \<union> {CHR '',''}. c \<notin> set ''{}''"
    "\<forall>c \<in> set b \<union> {CHR '',''}. c \<notin> set ''{}''"
    using assms by (simp_all add: plain_def list_all_iff)
  ultimately show "\<not> hd (a @ '','' @ b) \<in> set ''{}'' \<and> \<not> last (a @ '','' @ b) \<in> set ''{}''"
    by blast
qed

lemma strip_body:
  assumes "plain x" "plain h"
  shows "strip ''{}'' (rect_body x y w h) = rect_body x y w h"
  unfolding strip_def
proof (rule trim_id)
  assume "rect_body x y w h \<noteq> []"
  have "hd (rect_body x y w h) \<in> set x \<union> {CHR '',''}"
    by (cases x) (auto simp: rect_body_def)
  moreover have "last (rect_body x y w h) \<in> set h \<union> {CHR '',''}"
    by (cases h rule: rev_cases) (auto simp: rect_body_def)
  moreover have "\<forall>c \<in> set x \<union> {CHR '',''}. c \<notin> set ''{}''"
    "\<forall>c \<in> set h \<union> {CHR '',''}. c \<notin> set ''{}''"
    using assms by (simp_all add: plain_def list_all_iff)
  ultimately show "\<not> hd (rect_body x y w h) \<in> set ''{}'' \<and> \<not> last (rect_body x y w h) \<in> set ''{}''"
    by blast
qed

lemma split_pair:
  assumes "plain a" "plain b"
  shows "split '','' (a @ '','' @ b) = [a, b]"
proof -
  have "split '','' (a @ '','' @ b) = a # split '','' b"
    by (rule split_at_sep) (use assms in \<open>auto simp: plain_def list_all_iff\<close>)
  moreover have "split '','' b = [b]"
    by (rule split_no_sep) (use assms in \<open>auto simp: plain_def list_all_iff\<close>)
  ultimately show ?thesis by simp
qed

lemma split_body:
  assumes "plain x" "plain y" "plain w" "plain h"
  shows "split ''},{'' (rect_body x y w h) = [x @ '','' @ y, w @ '','' @ h]"
proof -
  have a: "hd ''},{'' \<notin> set (x @ '','' @ y)" and b: "hd ''},{'' \<notin> set (w @ '','' @ h)"
    using assms by (simp_all add: plainD)
  have ne: "''},{'' \<noteq> []" by simp
  have "split ''},{'' ((x @ '','' @ y) @ ''},{'' @ (w @ '','' @ h))
          = (x @ '','' @ y) # split ''},{'' (w @ '','' @ h)"
    using ne a by (rule split_at_sep)
  moreover have "split ''},{'' (w @ '','' @ h) = [w @ '','' @ h]"
    using ne b by (rule split_no_sep)
  moreover have "rect_body x y w h = (x @ '','' @ y) @ ''},{'' @ (w @ '','' @ h)"
    by (simp add: rect_body_def)
  ultimately show ?thesis by (simp only:)
qed

lemma parse_rect_body:
  assumes "plain x" "plain y" "plain w" "plain h" "braces l" "braces r"
  shows "parse_rect_str (l @ rect_body x y w h @ r) = convert x y w h"
proof -
  have 1: "strip ''{}'' (l @ rect_body x y w h @ r) = rect_body x y w h"
    using assms by (simp add: strip_pad strip_body)
  have 2: "split ''},{'' (rect_body x y w h) = [x @ '','' @ y, w @ '','' @ h]"
    using assms(1-4) by (rule split_body)
  have 3: "[x @ '','' @ y, w @ '','' @ h] ! 0 = x @ '','' @ y"
    "[x @ '','' @ y, w @ '','' @ h] ! 1 = w @ '','' @ h"
    "length [x @ '','' @ y, w @ '','' @ h] = 2"
    by simp_all
  show ?thesis
    unfolding parse_rect_str_def Let_def 1 2 3 convert_def
      strip_pair [OF assms(1,2)] strip_pair [OF assms(3,4)]
      split_pair [OF assms(1,2)] split_pair [OF assms(3,4)]
    by (simp only: simp_thms if_True)
qed

subsection \<open>Numerals and their conversion\<close>

lemma is_digit_iff:
  "is_digit c \<longleftrightarrow> c = CHR ''0'' \<or> c = CHR ''1'' \<or> c = CHR ''2'' \<or> c = CHR ''3'' \<or> c = CHR ''4''
      \<or> c = CHR ''5'' \<or> c = CHR ''6'' \<or> c = CHR ''7'' \<or> c = CHR ''8'' \<or> c = CHR ''9''"
  by (simp add: is_digit_def)

lemma digit_not_special:
  assumes "is_digit c"
  shows "c \<notin> set ''{},''" "\<not> is_space c" "c \<noteq> CHR ''_''" "c \<noteq> CHR ''-''" "c \<noteq> CHR ''+''"
    "c \<noteq> CHR ''.''" "lower c = c"
  using assms by (auto simp: is_digit_iff is_space_def lower_def)

lemma numeral_shape:
  assumes "is_numeral t"
  obtains ip where "t = ip" "ip \<noteq> []" "list_all is_digit ip"
  | ip fp where "t = ip @ CHR ''.'' # fp" "ip \<noteq> []" "list_all is_digit ip" "fp \<noteq> []" "list_all is_digit fp"
proof -
  let ?ip = "takeWhile is_digit t" and ?r = "dropWhile is_digit t"
  have t: "t = ?ip @ ?r" by simp
  have ip: "?ip \<noteq> []" "list_all is_digit ?ip"
    using assms by (auto simp: is_numeral_def Let_def list_all_iff dest: set_takeWhileD)
  show thesis
  proof (cases "?r = []")
    case True
    with t have "t = ?ip" by simp
    with ip that(1) show thesis by metis
  next
    case False
    with assms have r: "hd ?r = CHR ''.''" "tl ?r \<noteq> []" "list_all is_digit (tl ?r)"
      by (auto simp: is_numeral_def Let_def)
    from False r(1) have "?r = CHR ''.'' # tl ?r" by (cases ?r) auto
    with t have "t = ?ip @ CHR ''.'' # tl ?r" by simp
    with ip r that(2) show thesis by metis
  qed
qed

lemma underscores_id:
  assumes "CHR ''_'' \<notin> set t" "prev \<noteq> CHR ''_''"
  shows "underscores prev t = Some t"
  using assms by (induction t arbitrary: prev) auto

lemma strip_space_pad:
  assumes "list_all is_space a" "list_all is_space b"
  shows "strip_space (a @ t @ b) = strip_space t"
  unfolding strip_space_def
  by (rule trim_pad) (use assms in \<open>simp_all add: list_all_iff\<close>)

lemma py_float_pad:
  assumes "py_float t = Inr f" "list_all is_space a" "list_all is_space b"
  shows "py_float (a @ t @ b) = Inr f"
proof -
  have "py_float (a @ t @ b) =
          (case py_float t of Inl e \<Rightarrow> Inl (FloatSyntax (a @ t @ b)) | Inr g \<Rightarrow> Inr g)"
    unfolding py_float_def strip_space_pad [OF assms(2,3)] Let_def
    by (simp split: option.split)
  with assms(1) show ?thesis by simp
qed

lemma digits_not_sep:
  assumes "list_all is_digit ds"
  shows "CHR ''.'' \<notin> set ds" "CHR ''_'' \<notin> set ds" "\<forall>c\<in>set ds. c \<notin> set ''{},''"
proof -
  have d: "\<And>c. c \<in> set ds \<Longrightarrow> is_digit c"
    using assms by (simp add: list_all_iff)
  show "CHR ''.'' \<notin> set ds" using d digit_not_special(6) by blast
  show "CHR ''_'' \<notin> set ds" using d digit_not_special(3) by blast
  show "\<forall>c\<in>set ds. c \<notin> set ''{},''" using d digit_not_special(1) by blast
qed

lemma numeral_plain:
  assumes "is_numeral t"
  shows "plain t"
  using assms
proof (cases rule: numeral_shape)
  case (1 ip)
  then show ?thesis using digits_not_sep(3) by (simp add: plain_def list_all_iff)
next
  case (2 ip fp)
  then show ?thesis using digits_not_sep(3) [of ip] digits_not_sep(3) [of fp]
    by (simp add: plain_def list_all_iff) blast
qed

lemma takeWhile_digits:
  assumes "list_all is_digit ip"
  shows "takeWhile is_digit (ip @ CHR ''.'' # fp) = ip" "dropWhile is_digit (ip @ CHR ''.'' # fp) = CHR ''.'' # fp"
    "takeWhile is_digit ip = ip" "dropWhile is_digit ip = []"
proof -
  have nd: "\<not> is_digit CHR ''.''" by (simp add: is_digit_def)
  have all: "\<And>c. c \<in> set ip \<Longrightarrow> is_digit c" using assms by (simp add: list_all_iff)
  show "takeWhile is_digit (ip @ CHR ''.'' # fp) = ip"
    using all nd by (simp add: takeWhile_append2)
  show "dropWhile is_digit (ip @ CHR ''.'' # fp) = CHR ''.'' # fp"
    using all nd by (simp add: dropWhile_append2)
  show "takeWhile is_digit ip = ip" using all by (simp add: takeWhile_eq_all_conv)
  show "dropWhile is_digit ip = []" using all by simp
qed

lemma decimal_numeral:
  assumes "is_numeral t"
  shows "decimal t = Some (numeral_value t)"
  using assms
proof (cases rule: numeral_shape)
  case (1 ip)
  then show ?thesis
    by (simp add: decimal_def numeral_value_def takeWhile_digits Let_def)
next
  case (2 ip fp)
  then show ?thesis
    by (simp add: decimal_def numeral_value_def takeWhile_digits Let_def)
qed

lemma numeral_ends:
  assumes "is_numeral t"
  shows "t \<noteq> [] \<and> is_digit (hd t) \<and> is_digit (last t) \<and> CHR ''_'' \<notin> set t"
  using assms
proof (cases rule: numeral_shape)
  case (1 ip)
  then have "hd ip \<in> set ip" "last ip \<in> set ip" by simp_all
  with 1 digits_not_sep(2) [of ip] show ?thesis by (simp add: list_all_iff)
next
  case (2 ip fp)
  then have "hd ip \<in> set ip" "last fp \<in> set fp" by simp_all
  with 2 digits_not_sep(2) [of ip] digits_not_sep(2) [of fp] show ?thesis
    by (simp add: list_all_iff)
qed

lemma py_float_numeral:
  assumes "is_numeral t"
  shows "py_float t = Inr (nearest_double False (numeral_value t))"
proof -
  from numeral_ends [OF assms]
  have ne: "t \<noteq> []" and h: "is_digit (hd t)" and l: "is_digit (last t)" and u: "CHR ''_'' \<notin> set t"
    by simp_all
  have 1: "strip_space t = t"
    unfolding strip_space_def
    by (rule trim_id) (use h l digit_not_special(2) in blast)
  have 2: "underscores (CHR 0x00) t = Some t"
    by (rule underscores_id) (use u in simp_all)
  have 3: "hd t \<noteq> CHR ''-''" "hd t \<noteq> CHR ''+''"
    using h digit_not_special(4,5) by blast+
  have "hd (map lower t) = hd t"
    using ne h digit_not_special(7) by (simp add: hd_map)
  then have "is_digit (hd (map lower t))" using h by simp
  then have 4: "map lower t \<noteq> ''inf''" "map lower t \<noteq> ''infinity''" "map lower t \<noteq> ''nan''"
    by (auto simp: is_digit_def)
  show ?thesis
    unfolding py_float_def 1 2 Let_def
    using ne 3 4 by (simp add: decimal_numeral [OF assms])
qed

lemma int_float_pad:
  assumes "int_float t = Inr n" "list_all is_space a" "list_all is_space b"
  shows "int_float (a @ t @ b) = Inr n"
proof -
  from assms(1) obtain f where f: "py_float t = Inr f" "py_int f = Inr n"
    by (auto simp: int_float_def split: sum.splits)
  from f(1) assms(2,3) have "py_float (a @ t @ b) = Inr f" by (rule py_float_pad)
  with f(2) show ?thesis by (simp add: int_float_def)
qed

lemma space_plain:
  assumes "list_all is_space a"
  shows "plain a"
proof -
  have "\<not> is_space CHR ''{''" "\<not> is_space CHR ''}''" "\<not> is_space CHR '',''"
    by (simp_all add: is_space_def)
  then have "\<And>c. is_space c \<Longrightarrow> c \<notin> set ''{},''" by auto
  with assms show ?thesis unfolding plain_def list_all_iff by blast
qed

lemma plain_append:
  "plain (a @ b) \<longleftrightarrow> plain a \<and> plain b"
  by (simp add: plain_def)

text \<open>The conversion succeeds exactly when the four floats and the four truncations do.\<close>

lemma convert_Inr:
  "convert x y w h = Inr (a, b, c, d) \<longleftrightarrow>
     (\<exists>fx fy fw fh. py_float x = Inr fx \<and> py_float y = Inr fy \<and> py_float w = Inr fw \<and> py_float h = Inr fh
        \<and> py_int fx = Inr a \<and> py_int fy = Inr b \<and> py_int fw = Inr c \<and> py_int fh = Inr d)"
  unfolding convert_def by (auto split: sum.splits)

lemma bit_length_bounds:
  assumes "0 < n"
  shows "n < 2 ^ bit_length n" "2 ^ bit_length n \<le> 2 * n"
  using assms
proof (induction n rule: bit_length.induct)
  case (1 n)
  {
    case 1
    show ?case
    proof (cases "n div 2 = 0")
      case True
      with \<open>0 < n\<close> have "n = 1" by simp
      then show ?thesis by (simp add: bit_length.simps [of 1] bit_length.simps [of 0])
    next
      case False
      with \<open>0 < n\<close> have p: "0 < n div 2" by simp
      from "1.IH"(1) [OF _ p] \<open>0 < n\<close> have "n div 2 < 2 ^ bit_length (n div 2)" by simp
      then have "n < 2 * 2 ^ bit_length (n div 2)" by simp
      with \<open>0 < n\<close> show ?thesis by (simp add: bit_length.simps [of n])
    qed
  next
    case 2
    show ?case
    proof (cases "n div 2 = 0")
      case True
      with \<open>0 < n\<close> have "n = 1" by simp
      then show ?thesis by (simp add: bit_length.simps [of 1] bit_length.simps [of 0])
    next
      case False
      with \<open>0 < n\<close> have p: "0 < n div 2" by simp
      from "1.IH"(2) [OF _ p] \<open>0 < n\<close> have "2 ^ bit_length (n div 2) \<le> 2 * (n div 2)" by simp
      then have "2 * 2 ^ bit_length (n div 2) \<le> 2 * n" by simp
      with \<open>0 < n\<close> show ?thesis by (simp add: bit_length.simps [of n])
    qed
  }
qed

lemma to_double_finite:
  assumes "0 \<le> num" "0 < den" "num < den * 2 ^ 1023"
  shows "\<exists>m e. to_double num den = Some (m, e)"
proof (cases "num = 0")
  case True
  then show ?thesis by (simp add: to_double_def)
next
  case False
  with assms(1) have pos: "0 < num" by simp
  define d where "d = int (bit_length num) - int (bit_length den)"
  define k where "k = (if den * 2 ^ nat d \<le> num * 2 ^ nat (- d) then d else d - 1)"
  define e where "e = max (k - 52) (- 1074)"
  define m where "m = round_half_even (num * 2 ^ nat (- e)) (den * 2 ^ nat e)"
  have d: "d \<le> 1023"
  proof (rule ccontr)
    assume "\<not> d \<le> 1023"
    then have "bit_length den + 1024 \<le> bit_length num" by (simp add: d_def)
    then have "(2::int) ^ (bit_length den + 1024) \<le> 2 ^ bit_length num"
      by (rule power_increasing) simp
    also have "\<dots> \<le> 2 * num" using pos by (rule bit_length_bounds(2))
    also have "\<dots> < 2 * (den * 2 ^ 1023)" using assms(3) by simp
    also have "\<dots> = den * 2 ^ 1024" by simp
    also have "\<dots> < 2 ^ bit_length den * 2 ^ 1024"
      using bit_length_bounds(1) [OF assms(2)] by simp
    finally show False by (simp add: power_add)
  qed
  have "k \<le> 1022"
  proof (cases "d = 1023")
    case True
    then have "\<not> den * 2 ^ nat d \<le> num * 2 ^ nat (- d)" using assms(3) by simp
    with True show ?thesis by (simp add: k_def)
  next
    case False
    with d have "d \<le> 1022" by simp
    then show ?thesis by (simp add: k_def)
  qed
  then have "e \<le> 970" by (simp add: e_def)
  then have "\<not> (971 < e \<or> (e = 971 \<and> 2 ^ 53 \<le> m))" by simp
  then have "to_double num den = Some (m, e)"
    using False unfolding to_double_def Let_def d_def [symmetric] k_def [symmetric]
      e_def [symmetric] m_def [symmetric]
    by simp
  then show ?thesis by blast
qed

lemma digit_val_range:
  assumes "is_digit c"
  shows "0 \<le> digit_val c \<and> digit_val c \<le> 9"
  using assms by (auto simp: is_digit_iff digit_val_def)

lemma dec_snoc: "dec (ds @ [c]) = 10 * dec ds + digit_val c"
  by (simp add: dec_def)

lemma dec_range:
  assumes "list_all is_digit ds"
  shows "0 \<le> dec ds \<and> dec ds < 10 ^ length ds"
  using assms
proof (induction ds rule: rev_induct)
  case Nil
  show ?case by (simp add: dec_def)
next
  case (snoc c ds)
  then have "0 \<le> dec ds \<and> dec ds < 10 ^ length ds" "is_digit c" by simp_all
  with digit_val_range [of c] show ?case
    by (simp add: dec_snoc)
qed

lemma numeral_digits:
  assumes "is_numeral t"
  shows "list_all is_digit (takeWhile is_digit t @ tl (dropWhile is_digit t))"
  using assms
proof (cases rule: numeral_shape)
  case (1 ip)
  then show ?thesis by (simp add: takeWhile_digits)
next
  case (2 ip fp)
  then show ?thesis by (simp add: takeWhile_digits)
qed

lemma int_float_numeral_finite:
  assumes "is_numeral t" "length (takeWhile is_digit t) \<le> 307"
  shows "\<exists>n. int_float t = Inr n"
proof -
  let ?ip = "takeWhile is_digit t" and ?fp = "tl (dropWhile is_digit t)"
  let ?num = "dec (?ip @ ?fp)" and ?den = "(10::int) ^ length ?fp"
  from dec_range [OF numeral_digits [OF assms(1)]]
  have n: "0 \<le> ?num" "?num < 10 ^ (length ?ip + length ?fp)" by simp_all
  have "(10::int) ^ length ?ip \<le> 10 ^ 307"
    using assms(2) by (rule power_increasing) simp
  also have "\<dots> \<le> 2 ^ 1023" by simp
  finally have "(10::int) ^ length ?ip * ?den \<le> 2 ^ 1023 * ?den"
    by (rule mult_right_mono) simp
  moreover from n(2) have "?num < 10 ^ length ?ip * ?den" by (simp only: power_add)
  ultimately have "?num < 2 ^ 1023 * ?den" by (rule less_le_trans [rotated])
  then have "?num < ?den * 2 ^ 1023" by (simp only: mult.commute)
  with n(1) have "\<exists>m e. to_double ?num ?den = Some (m, e)"
    by (intro to_double_finite) simp_all
  then obtain m e where "to_double ?num ?den = Some (m, e)" by blast
  then have "nearest_double False (numeral_value t) = Finite m e"
    by (simp add: nearest_double_def numeral_value_def Let_def)
  then show ?thesis
    by (simp add: int_float_def py_float_numeral [OF assms(1)])
qed

subsection \<open>Braces and whitespace\<close>

lemma in_dropWhile:
  "c \<in> set s \<Longrightarrow> \<not> P c \<Longrightarrow> c \<in> set (dropWhile P s)"
  by (induction s) auto

lemma in_strip_space:
  assumes "c \<in> set s" "\<not> is_space c"
  shows "c \<in> set (strip_space s)"
proof -
  from assms have "c \<in> set (rev (dropWhile is_space s))" by (simp add: in_dropWhile)
  then have "c \<in> set (dropWhile is_space (rev (dropWhile is_space s)))"
    using assms(2) by (rule in_dropWhile)
  then show ?thesis by (simp add: strip_space_def)
qed

lemma in_underscores:
  "underscores prev s = Some t \<Longrightarrow> c \<in> set s \<Longrightarrow> c \<noteq> CHR ''_'' \<Longrightarrow> c \<in> set t"
  by (induction s arbitrary: prev t) (auto split: if_splits)

lemma exponent_chars:
  assumes "exponent s = Some x" "c \<in> set s"
  shows "is_digit c \<or> c = CHR ''-'' \<or> c = CHR ''+''"
proof -
  let ?ds = "if s \<noteq> [] \<and> (hd s = CHR ''-'' \<or> hd s = CHR ''+'') then tl s else s"
  from assms(1) have d: "list_all is_digit ?ds"
    unfolding exponent_def Let_def by (simp split: if_splits)
  show ?thesis
  proof (cases "s \<noteq> [] \<and> (hd s = CHR ''-'' \<or> hd s = CHR ''+'')")
    case True
    then have "s = hd s # tl s" by simp
    then have "set s = insert (hd s) (set (tl s))" by (metis list.simps(15))
    with assms(2) have "c = hd s \<or> c \<in> set (tl s)" by simp
    moreover from d True have "list_all is_digit (tl s)" by simp
    ultimately show ?thesis using True by (auto simp: list_all_iff)
  next
    case False
    with d have "list_all is_digit s" by simp
    with assms(2) show ?thesis by (simp add: list_all_iff)
  qed
qed

lemma decimal_chars:
  assumes "decimal s = Some v" "c \<in> set s"
  shows "is_digit c \<or> c = CHR ''.'' \<or> c = CHR ''e'' \<or> c = CHR ''E'' \<or> c = CHR ''-'' \<or> c = CHR ''+''"
proof -
  define ip where "ip = takeWhile is_digit s"
  define r1 where "r1 = dropWhile is_digit s"
  define pt where "pt \<longleftrightarrow> r1 \<noteq> [] \<and> hd r1 = CHR ''.''"
  define fp where "fp = (if pt then takeWhile is_digit (tl r1) else [])"
  define r2 where "r2 = (if pt then dropWhile is_digit (tl r1) else r1)"
  have s: "s = ip @ r1" by (simp add: ip_def r1_def)
  have d: "decimal s =
      (if ip = [] \<and> fp = [] then None
       else if r2 = [] then Some (dec (ip @ fp), - int (length fp))
       else if hd r2 = CHR ''e'' \<or> hd r2 = CHR ''E''
       then (case exponent (tl r2) of None \<Rightarrow> None
             | Some x \<Rightarrow> Some (dec (ip @ fp), x - int (length fp)))
       else None)"
    unfolding decimal_def Let_def ip_def r1_def pt_def fp_def r2_def ..
  from assms(1) have r2: "r2 = [] \<or>
      ((hd r2 = CHR ''e'' \<or> hd r2 = CHR ''E'') \<and> (\<exists>x. exponent (tl r2) = Some x))"
    unfolding d by (cases "exponent (tl r2)") (simp_all split: if_splits)
  have in_r2: "is_digit c \<or> c = CHR ''e'' \<or> c = CHR ''E'' \<or> c = CHR ''-'' \<or> c = CHR ''+''"
    if c: "c \<in> set r2"
  proof -
    from c have ne: "r2 \<noteq> []" by auto
    with r2 obtain x where h: "hd r2 = CHR ''e'' \<or> hd r2 = CHR ''E''"
      and e: "exponent (tl r2) = Some x" by blast
    from ne have "r2 = hd r2 # tl r2" by simp
    then have "set r2 = insert (hd r2) (set (tl r2))" by (metis list.simps(15))
    with c have "c = hd r2 \<or> c \<in> set (tl r2)" by simp
    then show ?thesis
    proof
      assume "c = hd r2" with h show ?thesis by blast
    next
      assume "c \<in> set (tl r2)"
      from exponent_chars [OF e this] show ?thesis by blast
    qed
  qed
  from assms(2) s have "c \<in> set ip \<or> c \<in> set r1" by (metis Un_iff set_append)
  then show ?thesis
  proof
    assume "c \<in> set ip"
    then have "is_digit c" unfolding ip_def by (rule set_takeWhileD [THEN conjunct2])
    then show ?thesis by simp
  next
    assume c: "c \<in> set r1"
    show ?thesis
    proof (cases pt)
      case False
      then have "r2 = r1" by (simp add: r2_def)
      with c have "c \<in> set r2" by simp
      from in_r2 [OF this] show ?thesis by blast
    next
      case True
      then have "r1 = CHR ''.'' # tl r1" unfolding pt_def by (metis list.collapse)
      then have "set r1 = insert (CHR ''.'') (set (tl r1))" by (metis list.simps(15))
      with c have "c = CHR ''.'' \<or> c \<in> set (tl r1)" by simp
      then show ?thesis
      proof
        assume "c = CHR ''.''" then show ?thesis by simp
      next
        assume "c \<in> set (tl r1)"
        moreover have "tl r1 = takeWhile is_digit (tl r1) @ dropWhile is_digit (tl r1)" by simp
        ultimately have "c \<in> set (takeWhile is_digit (tl r1)) \<or> c \<in> set (dropWhile is_digit (tl r1))"
          by (metis Un_iff set_append)
        then show ?thesis
        proof
          assume "c \<in> set (takeWhile is_digit (tl r1))"
          then have "is_digit c" by (rule set_takeWhileD [THEN conjunct2])
          then show ?thesis by simp
        next
          assume "c \<in> set (dropWhile is_digit (tl r1))"
          with True have "c \<in> set r2" by (simp add: r2_def)
          from in_r2 [OF this] show ?thesis by blast
        qed
      qed
    qed
  qed
qed

lemma brace_facts:
  assumes "c = CHR ''{'' \<or> c = CHR ''}''"
  shows "\<not> is_space c" "\<not> is_digit c" "c \<noteq> CHR ''_''" "c \<noteq> CHR ''-''" "c \<noteq> CHR ''+''"
    "c \<noteq> CHR ''.''" "c \<noteq> CHR ''e''" "c \<noteq> CHR ''E''" "lower c = c"
  using assms by (auto simp: is_space_def is_digit_def lower_def)

lemma py_float_error:
  "py_float s = Inl e \<Longrightarrow> e = FloatSyntax s"
  unfolding py_float_def Let_def by (auto split: option.splits if_splits)

lemma py_float_brace:
  assumes "c \<in> set s" "c = CHR ''{'' \<or> c = CHR ''}''"
  shows "py_float s = Inl (FloatSyntax s)"
proof (cases "underscores (CHR 0x00) (strip_space s)")
  case None
  then show ?thesis by (simp add: py_float_def)
next
  case (Some t)
  note b = brace_facts [OF assms(2)]
  define u where "u = (if t \<noteq> [] \<and> (hd t = CHR ''-'' \<or> hd t = CHR ''+'') then tl t else t)"
  from assms(1) b(1) have "c \<in> set (strip_space s)" by (rule in_strip_space)
  from in_underscores [OF Some this b(3)] have t: "c \<in> set t" .
  have u: "c \<in> set u"
  proof (cases "t \<noteq> [] \<and> (hd t = CHR ''-'' \<or> hd t = CHR ''+'')")
    case True
    then have "t = hd t # tl t" by simp
    then have "set t = insert (hd t) (set (tl t))" by (metis list.simps(15))
    with t have "c = hd t \<or> c \<in> set (tl t)" by simp
    with True b(4,5) have "c \<in> set (tl t)" by blast
    moreover from True have "u = tl t" unfolding u_def by (rule if_P)
    ultimately show ?thesis by simp
  next
    case False
    then have "u = t" unfolding u_def by (rule if_not_P)
    with t show ?thesis by simp
  qed
  have "lower c \<in> lower ` set u" using u by (rule imageI)
  then have m: "c \<in> set (map lower u)" using b(9) by simp
  have n: "c \<notin> set ''inf''" "c \<notin> set ''infinity''" "c \<notin> set ''nan''"
    using assms(2) by auto
  have 1: "map lower u \<noteq> ''inf''" "map lower u \<noteq> ''infinity''" "map lower u \<noteq> ''nan''"
  proof -
    show "map lower u \<noteq> ''inf''" using m n(1) by (rule_tac notI) (simp only:)
    show "map lower u \<noteq> ''infinity''" using m n(2) by (rule_tac notI) (simp only:)
    show "map lower u \<noteq> ''nan''" using m n(3) by (rule_tac notI) (simp only:)
  qed
  have 2: "decimal u = None"
  proof (cases "decimal u")
    case None then show ?thesis .
  next
    case (Some v)
    from decimal_chars [OF Some u] b show ?thesis by blast
  qed
  have "py_float s =
     (if map lower u = ''inf'' \<or> map lower u = ''infinity''
      then Inr (Infinity (t \<noteq> [] \<and> hd t = CHR ''-''))
      else if map lower u = ''nan'' then Inr NaN
      else (case decimal u of None \<Rightarrow> Inl (FloatSyntax s)
            | Some v \<Rightarrow> Inr (nearest_double (t \<noteq> [] \<and> hd t = CHR ''-'') v)))"
    unfolding py_float_def Some Let_def u_def by (simp only: option.case)
  also have "\<dots> = Inl (FloatSyntax s)"
    using 1 2 by (simp only: simp_thms if_False option.case)
  finally show ?thesis .
qed

lemma split_nonempty: "split sep s \<noteq> []"
proof (cases s)
  case Nil then show ?thesis by simp
next
  case (Cons c cs)
  then show ?thesis by (cases "split sep cs") auto
qed

lemma split_no_sep_char:
  assumes "x \<in> set sep" "x \<notin> set s"
  shows "split sep s = [s]"
  using assms(2)
proof (induction s)
  case Nil then show ?case by simp
next
  case (Cons c cs)
  have "\<not> prefix sep (c # cs)"
  proof
    assume "prefix sep (c # cs)"
    then have "set sep \<subseteq> set (c # cs)" by (rule set_mono_prefix)
    with assms(1) Cons.prems show False by blast
  qed
  moreover from Cons have "split sep cs = [cs]" by simp
  ultimately show ?case by simp
qed

lemma split_skip:
  assumes "sep \<noteq> []" "hd sep \<notin> set a"
  shows "split sep (a @ b) = (a @ hd (split sep b)) # tl (split sep b)"
  using assms(2)
proof (induction a)
  case Nil
  show ?case using split_nonempty [of sep b] by simp
next
  case (Cons c cs)
  from Cons.prems assms(1) have "\<not> prefix sep (c # cs @ b)" by (cases sep) auto
  moreover from Cons have "split sep (cs @ b) = (cs @ hd (split sep b)) # tl (split sep b)"
    by simp
  ultimately show ?case by simp
qed

lemma strip_ends:
  assumes "s \<noteq> []" "hd s \<noteq> CHR ''{''" "hd s \<noteq> CHR ''}''" "last s \<noteq> CHR ''{''" "last s \<noteq> CHR ''}''"
  shows "strip ''{}'' s = s"
  unfolding strip_def
  by (rule trim_id) (use assms in simp)

lemma token_pair:
  assumes "CHR '','' \<notin> set a" "a \<noteq> [] \<Longrightarrow> hd a \<noteq> CHR ''{'' \<and> hd a \<noteq> CHR ''}''"
    and "CHR '','' \<notin> set b" "b \<noteq> [] \<Longrightarrow> last b \<noteq> CHR ''{'' \<and> last b \<noteq> CHR ''}''"
  shows "split '','' (strip ''{}'' (a @ '','' @ b)) = [a, b]"
proof -
  have h: "hd (a @ '','' @ b) \<noteq> CHR ''{''" "hd (a @ '','' @ b) \<noteq> CHR ''}''"
    using assms(2) by (cases a; simp)+
  have l: "last (a @ '','' @ b) \<noteq> CHR ''{''" "last (a @ '','' @ b) \<noteq> CHR ''}''"
    using assms(4) by (cases b rule: rev_cases; simp)+
  have "strip ''{}'' (a @ '','' @ b) = a @ '','' @ b"
    by (rule strip_ends) (use h l in simp_all)
  moreover have "split '','' (a @ '','' @ b) = a # split '','' b"
    by (rule split_at_sep) (use assms(1) in simp_all)
  moreover have "split '','' b = [b]"
    by (rule split_no_sep) (use assms(3) in simp_all)
  ultimately show ?thesis by simp
qed

lemma space_facts:
  assumes "is_space c"
  shows "c \<noteq> CHR ''{''" "c \<noteq> CHR ''}''" "c \<noteq> CHR '',''"
  using assms by (auto simp: is_space_def)

lemma spaces_facts:
  assumes "list_all is_space s"
  shows "CHR ''{'' \<notin> set s" "CHR ''}'' \<notin> set s" "CHR '','' \<notin> set s"
  using plainD [OF space_plain [OF assms]] .

lemma parse_rect_tokens:
  assumes a: "CHR '','' \<notin> set a" "CHR ''}'' \<notin> set a" "a \<noteq> [] \<Longrightarrow> hd a \<noteq> CHR ''{''"
    and b: "plain b" and c: "plain c"
    and d: "CHR '','' \<notin> set d" "CHR ''{'' \<notin> set d" "d \<noteq> [] \<Longrightarrow> last d \<noteq> CHR ''}''"
    and lr: "braces l" "braces r"
    and s: "list_all is_space s1" "list_all is_space s2"
  shows "parse_rect_str (l @ (a @ '','' @ b @ ''}'' @ s1 @ '','' @ s2 @ ''{'' @ c @ '','' @ d) @ r) =
     (if s1 = [] \<and> s2 = [] then convert a b c d
      else Inl (CannotParse (a @ '','' @ b @ ''}'' @ s1 @ '','' @ s2 @ ''{'' @ c @ '','' @ d)))"
proof -
  let ?A = "a @ '','' @ b"
  let ?B = "s1 @ '','' @ s2 @ ''{'' @ c @ '',''"
  let ?T = "a @ '','' @ b @ ''}'' @ s1 @ '','' @ s2 @ ''{'' @ c @ '','' @ d"
  note pb = plainD [OF b] and pc = plainD [OF c]
  note p1 = spaces_facts [OF s(1)] and p2 = spaces_facts [OF s(2)]
  have ha: "a \<noteq> [] \<Longrightarrow> hd a \<noteq> CHR ''{'' \<and> hd a \<noteq> CHR ''}''"
    using a(2,3) by (cases a) auto
  have ld: "d \<noteq> [] \<Longrightarrow> last d \<noteq> CHR ''{'' \<and> last d \<noteq> CHR ''}''"
    using d(2,3) by (cases d rule: rev_cases) auto
  have hb: "b \<noteq> [] \<Longrightarrow> last b \<noteq> CHR ''{'' \<and> last b \<noteq> CHR ''}''"
    using pb by (cases b rule: rev_cases) auto
  have hc: "c \<noteq> [] \<Longrightarrow> hd c \<noteq> CHR ''{'' \<and> hd c \<noteq> CHR ''}''"
    using pc by (cases c) auto
  have T: "?T = a @ CHR '','' # (b @ ''}'' @ s1 @ '','' @ s2 @ ''{'' @ c) @ CHR '','' # d"
    by simp
  have hT: "hd ?T \<noteq> CHR ''{''" "hd ?T \<noteq> CHR ''}''"
    using ha by (cases a; simp)+
  have lT: "last ?T \<noteq> CHR ''{''" "last ?T \<noteq> CHR ''}''"
    using ld by (cases d rule: rev_cases; simp)+
  have "strip ''{}'' ?T = ?T"
    by (rule strip_ends) (use hT lT in simp_all)
  then have 1: "strip ''{}'' (l @ ?T @ r) = ?T"
    using lr by (simp only: strip_pad)
  have nA: "hd ''},{'' \<notin> set ?A" using a(2) pb(2) by simp
  have ne: "''},{'' \<noteq> []" by simp
  show ?thesis
  proof (cases "s1 = [] \<and> s2 = []")
    case True
    have "split ''},{'' (?A @ ''},{'' @ (c @ '','' @ d)) = ?A # split ''},{'' (c @ '','' @ d)"
      using ne nA by (rule split_at_sep)
    moreover have "split ''},{'' (c @ '','' @ d) = [c @ '','' @ d]"
      by (rule split_no_sep_char [of "CHR ''{''"]) (use pc(1) d(2) in simp_all)
    moreover have "?T = ?A @ ''},{'' @ (c @ '','' @ d)" using True by simp
    ultimately have 2: "split ''},{'' ?T = [?A, c @ '','' @ d]" by (simp only:)
    have 3: "[?A, c @ '','' @ d] ! 0 = ?A" "[?A, c @ '','' @ d] ! 1 = c @ '','' @ d"
      "length [?A, c @ '','' @ d] = 2"
      by simp_all
    have 4: "split '','' (strip ''{}'' ?A) = [a, b]"
      by (rule token_pair) (use a(1) ha pb(3) hb in blast)+
    have 5: "split '','' (strip ''{}'' (c @ '','' @ d)) = [c, d]"
      by (rule token_pair) (use pc(3) hc d(1) ld in blast)+
    have "parse_rect_str (l @ ?T @ r) = convert a b c d"
      unfolding parse_rect_str_def Let_def 1 2 3 4 5 convert_def
      by (simp only: simp_thms if_True)
    with True show ?thesis by (simp only: simp_thms if_True)
  next
    case False
    let ?R = "s1 @ '','' @ s2 @ ''{'' @ c @ '','' @ d"
    have "split ''},{'' d = [d]"
      by (rule split_no_sep_char [of "CHR ''{''"]) (use d(2) in simp_all)
    moreover have "hd ''},{'' \<notin> set ?B" using p1(2) p2(2) pc(2) by simp
    then have "split ''},{'' (?B @ d) = (?B @ hd (split ''},{'' d)) # tl (split ''},{'' d)"
      by (rule split_skip [OF ne])
    ultimately have R: "split ''},{'' ?R = [?R]" by simp
    have np: "\<not> prefix '',{'' ?R"
    proof (cases s1)
      case (Cons x xs)
      with s(1) have "is_space x" by simp
      then have "x \<noteq> CHR '',''" by (rule space_facts)
      with Cons show ?thesis by simp
    next
      case Nil
      with False obtain x xs where s2: "s2 = x # xs" by (cases s2) auto
      with s(2) have "is_space x" by simp
      then have "x \<noteq> CHR ''{''" by (rule space_facts)
      with Nil s2 show ?thesis by simp
    qed
    then have "\<not> prefix ''},{'' (CHR ''}'' # ?R)" by simp
    then have "split ''},{'' (CHR ''}'' # ?R) = cons_first (CHR ''}'') (split ''},{'' ?R)"
      by simp
    with R have R': "split ''},{'' (CHR ''}'' # ?R) = [CHR ''}'' # ?R]" by simp
    have "split ''},{'' (?A @ CHR ''}'' # ?R)
        = (?A @ hd (split ''},{'' (CHR ''}'' # ?R))) # tl (split ''},{'' (CHR ''}'' # ?R))"
      using ne nA by (rule split_skip)
    then have "split ''},{'' (?A @ CHR ''}'' # ?R) = [?A @ CHR ''}'' # ?R]"
      unfolding R' by simp
    moreover have "?T = ?A @ CHR ''}'' # ?R" by simp
    ultimately have 2: "split ''},{'' ?T = [?T]" by (simp only:)
    have 3: "length [?T] \<noteq> 2" by simp
    have "parse_rect_str (l @ ?T @ r) = Inl (CannotParse ?T)"
      unfolding parse_rect_str_def Let_def 1 2 using 3 by (simp only: if_False)
    with False show ?thesis by (simp only: if_False)
  qed
qed

lemma convert_float_error:
  assumes "(\<exists>e. py_float a = Inl e) \<or> (\<exists>e. py_float b = Inl e)
         \<or> (\<exists>e. py_float c = Inl e) \<or> (\<exists>e. py_float d = Inl e)"
  shows "\<exists>t. convert a b c d = Inl (FloatSyntax t)"
proof -
  have e: "\<And>s. (\<exists>f. py_float s = Inr f) \<or> py_float s = Inl (FloatSyntax s)"
    by (metis py_float_error sum.exhaust)
  show ?thesis
  proof (cases "py_float a")
    case (Inl x)
    with py_float_error [OF Inl] show ?thesis by (simp add: convert_def)
  next
    case a: (Inr fa)
    show ?thesis
    proof (cases "py_float b")
      case (Inl x)
      with py_float_error [OF Inl] a show ?thesis by (simp add: convert_def)
    next
      case b: (Inr fb)
      show ?thesis
      proof (cases "py_float c")
        case (Inl x)
        with py_float_error [OF Inl] a b show ?thesis by (simp add: convert_def)
      next
        case c: (Inr fc)
        from assms a b c obtain x where d: "py_float d = Inl x" by auto
        with py_float_error [OF d] a b c show ?thesis by (simp add: convert_def)
      qed
    qed
  qed
qed

lemma open_braces_split:
  assumes "open_braces pre"
  obtains l ob where "pre = l @ ob" "braces l"
    "CHR '','' \<notin> set ob" "CHR ''}'' \<notin> set ob"
    "ob \<noteq> [] \<longrightarrow> is_space (hd ob) \<and> CHR ''{'' \<in> set ob"
    "ob = [] \<longleftrightarrow> \<not> list_ex is_space pre"
proof -
  let ?P = "\<lambda>c. c = CHR ''{''"
  let ?l = "takeWhile ?P pre" and ?o = "dropWhile ?P pre"
  from assms have all: "\<forall>c\<in>set pre. c = CHR ''{'' \<or> is_space c"
    and lst: "pre \<noteq> [] \<Longrightarrow> last pre = CHR ''{''"
    by (simp_all add: open_braces_def list_all_iff)
  have 1: "pre = ?l @ ?o" by simp
  have "\<forall>c\<in>set ?l. c = CHR ''{''" by (auto dest: set_takeWhileD)
  then have 2: "braces ?l" by (simp add: braces_def list_all_iff)
  have sub: "set ?o \<subseteq> set pre" by (auto dest: set_dropWhileD)
  have 3: "CHR '','' \<notin> set ?o" "CHR ''}'' \<notin> set ?o"
    using sub all space_facts by fastforce+
  have 4: "is_space (hd ?o) \<and> CHR ''{'' \<in> set ?o" if ne: "?o \<noteq> []"
  proof -
    from ne have "\<not> ?P (hd ?o)" by (rule hd_dropWhile)
    moreover from ne have "hd ?o \<in> set pre" using sub by (meson hd_in_set subsetD)
    ultimately have "is_space (hd ?o)" using all by blast
    moreover from ne have "pre \<noteq> []" by auto
    then have "last pre = CHR ''{''" by (rule lst)
    with ne have "last ?o = CHR ''{''" by (metis 1 last_appendR)
    with ne have "CHR ''{'' \<in> set ?o" by (metis last_in_set)
    ultimately show ?thesis by blast
  qed
  have 5: "?o = [] \<longleftrightarrow> \<not> list_ex is_space pre"
  proof
    assume "?o = []"
    then have "\<forall>c\<in>set pre. c = CHR ''{''" by (simp add: dropWhile_eq_Nil_conv)
    then show "\<not> list_ex is_space pre"
      using space_facts(1) by (auto simp: list_ex_iff)
  next
    assume "\<not> list_ex is_space pre"
    with all have "\<forall>c\<in>set pre. c = CHR ''{''" by (auto simp: list_ex_iff)
    then show "?o = []" by (simp add: dropWhile_eq_Nil_conv)
  qed
  from 4 have 6: "?o \<noteq> [] \<longrightarrow> is_space (hd ?o) \<and> CHR ''{'' \<in> set ?o" by blast
  from 1 2 3 6 5 show ?thesis by (rule that)
qed

lemma close_braces_split:
  assumes "close_braces post"
  obtains c r where "post = c @ r" "braces r"
    "CHR '','' \<notin> set c" "CHR ''{'' \<notin> set c"
    "c \<noteq> [] \<longrightarrow> is_space (last c) \<and> CHR ''}'' \<in> set c"
    "c = [] \<longleftrightarrow> \<not> list_ex is_space post"
proof -
  let ?P = "\<lambda>c. c = CHR ''}''"
  let ?r = "rev (takeWhile ?P (rev post))" and ?c = "rev (dropWhile ?P (rev post))"
  from assms have all: "\<forall>c\<in>set post. c = CHR ''}'' \<or> is_space c"
    and fst: "post \<noteq> [] \<Longrightarrow> hd post = CHR ''}''"
    by (simp_all add: close_braces_def list_all_iff)
  have "rev (rev post) = rev (takeWhile ?P (rev post) @ dropWhile ?P (rev post))"
    by (simp only: takeWhile_dropWhile_id)
  then have 1: "post = ?c @ ?r" by (simp only: rev_append rev_rev_ident)
  have "\<forall>c\<in>set ?r. c = CHR ''}''" by (auto dest: set_takeWhileD)
  then have 2: "braces ?r" by (simp add: braces_def list_all_iff)
  have sub: "set ?c \<subseteq> set post" by (auto dest: set_dropWhileD)
  have 3: "CHR '','' \<notin> set ?c" "CHR ''{'' \<notin> set ?c"
    using sub all space_facts by fastforce+
  have 4: "is_space (last ?c) \<and> CHR ''}'' \<in> set ?c" if ne: "?c \<noteq> []"
  proof -
    from ne have d: "dropWhile ?P (rev post) \<noteq> []" by simp
    then have "\<not> ?P (hd (dropWhile ?P (rev post)))" by (rule hd_dropWhile)
    moreover from d have "last ?c = hd (dropWhile ?P (rev post))" by (simp add: last_rev)
    ultimately have "\<not> ?P (last ?c)" by simp
    moreover from ne have "last ?c \<in> set post" using sub by (meson last_in_set subsetD)
    ultimately have "is_space (last ?c)" using all by blast
    moreover from ne have "post \<noteq> []" by auto
    then have "hd post = CHR ''}''" by (rule fst)
    with ne have "hd ?c = CHR ''}''" by (metis 1 hd_append2)
    with ne have "CHR ''}'' \<in> set ?c" by (metis hd_in_set)
    ultimately show ?thesis by blast
  qed
  have 5: "?c = [] \<longleftrightarrow> \<not> list_ex is_space post"
  proof
    assume "?c = []"
    then have "\<forall>c\<in>set post. c = CHR ''}''" by (simp add: dropWhile_eq_Nil_conv)
    then show "\<not> list_ex is_space post"
      using space_facts(2) by (auto simp: list_ex_iff)
  next
    assume "\<not> list_ex is_space post"
    with all have "\<forall>c\<in>set post. c = CHR ''}''" by (auto simp: list_ex_iff)
    then show "?c = []" by (simp add: dropWhile_eq_Nil_conv)
  qed
  from 4 have 6: "?c \<noteq> [] \<longrightarrow> is_space (last ?c) \<and> CHR ''}'' \<in> set ?c" by blast
  from 1 2 3 6 5 show ?thesis by (rule that)
qed

lemma spaces_ex:
  assumes "list_all is_space s"
  shows "list_ex is_space s \<longleftrightarrow> s \<noteq> []"
  using assms by (cases s) simp_all

subsection \<open>The rectangle string\<close>

lemma convert_int_float:
  assumes "int_float x = Inr a" "int_float y = Inr b" "int_float w = Inr c" "int_float h = Inr d"
  shows "convert x y w h = Inr (a, b, c, d)"
proof -
  from assms(1) obtain fx where 1: "py_float x = Inr fx" "py_int fx = Inr a"
    by (auto simp: int_float_def split: sum.splits)
  from assms(2) obtain fy where 2: "py_float y = Inr fy" "py_int fy = Inr b"
    by (auto simp: int_float_def split: sum.splits)
  from assms(3) obtain fw where 3: "py_float w = Inr fw" "py_int fw = Inr c"
    by (auto simp: int_float_def split: sum.splits)
  from assms(4) obtain fh where 4: "py_float h = Inr fh" "py_int fh = Inr d"
    by (auto simp: int_float_def split: sum.splits)
  show ?thesis unfolding convert_Inr using 1 2 3 4 by blast
qed

lemma convert_pad:
  assumes "convert x y w h = Inr q"
    and "list_all is_space p1" "list_all is_space q1" "list_all is_space p2" "list_all is_space q2"
    and "list_all is_space p3" "list_all is_space q3" "list_all is_space p4" "list_all is_space q4"
  shows "convert (p1 @ x @ q1) (p2 @ y @ q2) (p3 @ w @ q3) (p4 @ h @ q4) = Inr q"
proof -
  obtain a b c d where q: "q = (a, b, c, d)" by (cases q) auto
  from assms(1) obtain fx fy fw fh where f: "py_float x = Inr fx" "py_float y = Inr fy"
    "py_float w = Inr fw" "py_float h = Inr fh"
    and i: "py_int fx = Inr a" "py_int fy = Inr b" "py_int fw = Inr c" "py_int fh = Inr d"
    unfolding q convert_Inr by blast
  have "py_float (p1 @ x @ q1) = Inr fx" "py_float (p2 @ y @ q2) = Inr fy"
    "py_float (p3 @ w @ q3) = Inr fw" "py_float (p4 @ h @ q4) = Inr fh"
    using f assms(2-) by (simp_all add: py_float_pad)
  with i show ?thesis unfolding q convert_Inr by blast
qed

lemma parse_rect_text:
  assumes "plain x" "plain y" "plain w" "plain h"
  shows "parse_rect_str (rect_text x y w h) = convert x y w h"
  unfolding rect_text_def
  by (rule parse_rect_body) (use assms in \<open>simp_all add: braces_def\<close>)

lemma int_float_Inr:
  "int_float t = Inr a \<longleftrightarrow> (\<exists>f. py_float t = Inr f \<and> py_int f = Inr a)"
  by (auto simp: int_float_def split: sum.splits)

lemma int_float_numeral_cases:
  assumes "is_numeral t"
  shows "(\<exists>n. int_float t = Inr n) \<or> int_float t = Inl FloatInfinity"
  unfolding int_float_def py_float_numeral [OF assms] nearest_double_def
  by (simp split: prod.splits option.splits)

lemma convert_overflow:
  assumes "is_numeral x" "is_numeral y" "is_numeral w" "is_numeral h"
  shows "convert x y w h = Inl FloatInfinity \<longleftrightarrow>
           int_float x = Inl FloatInfinity \<or> int_float y = Inl FloatInfinity
           \<or> int_float w = Inl FloatInfinity \<or> int_float h = Inl FloatInfinity"
    and "convert x y w h = Inl FloatInfinity \<or> (\<exists>q. convert x y w h = Inr q)"
proof -
  let ?f = "\<lambda>t. nearest_double False (numeral_value t)"
  have c: "convert x y w h =
     (case py_int (?f x) of Inl e \<Rightarrow> Inl e | Inr xi \<Rightarrow>
     (case py_int (?f y) of Inl e \<Rightarrow> Inl e | Inr yi \<Rightarrow>
     (case py_int (?f w) of Inl e \<Rightarrow> Inl e | Inr wi \<Rightarrow>
     (case py_int (?f h) of Inl e \<Rightarrow> Inl e | Inr hi \<Rightarrow> Inr (xi, yi, wi, hi)))))"
    unfolding convert_def by (simp add: py_float_numeral assms)
  have i: "int_float t = py_int (?f t)" if "is_numeral t" for t
    by (simp add: int_float_def py_float_numeral [OF that])
  from int_float_numeral_cases [OF assms(1)] i [OF assms(1)]
  have 1: "(\<exists>n. py_int (?f x) = Inr n) \<or> py_int (?f x) = Inl FloatInfinity" by simp
  from int_float_numeral_cases [OF assms(2)] i [OF assms(2)]
  have 2: "(\<exists>n. py_int (?f y) = Inr n) \<or> py_int (?f y) = Inl FloatInfinity" by simp
  from int_float_numeral_cases [OF assms(3)] i [OF assms(3)]
  have 3: "(\<exists>n. py_int (?f w) = Inr n) \<or> py_int (?f w) = Inl FloatInfinity" by simp
  from int_float_numeral_cases [OF assms(4)] i [OF assms(4)]
  have 4: "(\<exists>n. py_int (?f h) = Inr n) \<or> py_int (?f h) = Inl FloatInfinity" by simp
  show "convert x y w h = Inl FloatInfinity \<longleftrightarrow>
           int_float x = Inl FloatInfinity \<or> int_float y = Inl FloatInfinity
           \<or> int_float w = Inl FloatInfinity \<or> int_float h = Inl FloatInfinity"
    unfolding c i [OF assms(1)] i [OF assms(2)] i [OF assms(3)] i [OF assms(4)]
    using 1 2 3 4 by (auto split: sum.splits)
  show "convert x y w h = Inl FloatInfinity \<or> (\<exists>q. convert x y w h = Inr q)"
    unfolding c using 1 2 3 4 by (auto split: sum.splits)
qed

text \<open>Claim C2 says that every rectangle string \<^verbatim>\<open>{{x,y},{w,h}}\<close> of four non-negative
  numerals parses to the 4-tuple of the truncated components. It does not when a numeral
  is beyond the range of a float: a numeral of 309 nines is a numeral, \<^verbatim>\<open>float\<close> converts
  it to infinity, and \<^verbatim>\<open>int\<close> raises \<^verbatim>\<open>OverflowError\<close>, so that \<^verbatim>\<open>parse_rect_string\<close>
  returns no tuple.\<close>

theorem parse_rect_string_overflow_counterexample:
  "is_numeral ''1'' \<and> is_numeral ''2'' \<and> is_numeral ''3''
   \<and> is_numeral (replicate 309 (CHR ''9''))
   \<and> py_float (replicate 309 (CHR ''9'')) = Inr (Infinity False)
   \<and> parse_rect_string (PString (''{{1,2},{3,'' @ replicate 309 (CHR ''9'') @ ''}}''))
        = Inl FloatInfinity"
  by code_simp

text \<open>Claim C2, amended. For a rectangle string \<^verbatim>\<open>{{x,y},{w,h}}\<close> whose four components are
  numerals (digits, possibly with a fractional part), \<^verbatim>\<open>parse_rect_string\<close> converts each
  component by \<^verbatim>\<open>float\<close>, to the binary64 number nearest to its decimal value, and
  returns a 4-tuple exactly when each component has a truncation by \<^verbatim>\<open>int\<close>, and then
  the tuple of the four truncations. The truncations exist, and the 4-tuple is
  returned, for all numerals of at most 307 digits before the point. Otherwise a
  component is beyond the range of binary64 and converts to infinity, which \<^verbatim>\<open>int\<close>
  refuses: \<^verbatim>\<open>parse_rect_string\<close> raises \<^verbatim>\<open>OverflowError\<close>, and it raises nothing else.
  The witness is the specification's example: \<^verbatim>\<open>{{1,2},{3.9,4.1}}\<close> parses to
  \<open>(1, 2, 3, 4)\<close>.\<close>

theorem parse_rect_string_truncates:
  assumes "is_numeral x" "is_numeral y" "is_numeral w" "is_numeral h"
  shows "py_float x = Inr (nearest_double False (numeral_value x))
       \<and> py_float y = Inr (nearest_double False (numeral_value y))
       \<and> py_float w = Inr (nearest_double False (numeral_value w))
       \<and> py_float h = Inr (nearest_double False (numeral_value h))
       \<and> (parse_rect_string (PString (rect_text x y w h)) = Inr (a, b, c, d)
            \<longleftrightarrow> int_float x = Inr a \<and> int_float y = Inr b \<and> int_float w = Inr c
                \<and> int_float h = Inr d)
       \<and> (int_digits x \<le> 307 \<and> int_digits y \<le> 307 \<and> int_digits w \<le> 307 \<and> int_digits h \<le> 307
            \<longrightarrow> (\<exists>a b c d. int_float x = Inr a \<and> int_float y = Inr b \<and> int_float w = Inr c
                    \<and> int_float h = Inr d
                    \<and> parse_rect_string (PString (rect_text x y w h)) = Inr (a, b, c, d)))
       \<and> (parse_rect_string (PString (rect_text x y w h)) = Inl FloatInfinity
            \<longleftrightarrow> int_float x = Inl FloatInfinity \<or> int_float y = Inl FloatInfinity
                \<or> int_float w = Inl FloatInfinity \<or> int_float h = Inl FloatInfinity)
       \<and> (parse_rect_string (PString (rect_text x y w h)) = Inl FloatInfinity
            \<or> (\<exists>q. parse_rect_string (PString (rect_text x y w h)) = Inr q))"
proof -
  have p: "parse_rect_string (PString (rect_text x y w h)) = convert x y w h"
    using assms by (simp add: parse_rect_text numeral_plain)
  have 1: "parse_rect_string (PString (rect_text x y w h)) = Inr (a, b, c, d)
      \<longleftrightarrow> int_float x = Inr a \<and> int_float y = Inr b \<and> int_float w = Inr c \<and> int_float h = Inr d"
    for a b c d
    unfolding p convert_Inr int_float_Inr by blast
  have 2: "\<exists>a b c d. int_float x = Inr a \<and> int_float y = Inr b \<and> int_float w = Inr c
      \<and> int_float h = Inr d \<and> parse_rect_string (PString (rect_text x y w h)) = Inr (a, b, c, d)"
    if s: "int_digits x \<le> 307" "int_digits y \<le> 307" "int_digits w \<le> 307" "int_digits h \<le> 307"
  proof -
    from int_float_numeral_finite [OF assms(1)] s(1) obtain a where a: "int_float x = Inr a"
      by (auto simp: int_digits_def)
    from int_float_numeral_finite [OF assms(2)] s(2) obtain b where b: "int_float y = Inr b"
      by (auto simp: int_digits_def)
    from int_float_numeral_finite [OF assms(3)] s(3) obtain c where c: "int_float w = Inr c"
      by (auto simp: int_digits_def)
    from int_float_numeral_finite [OF assms(4)] s(4) obtain d where d: "int_float h = Inr d"
      by (auto simp: int_digits_def)
    from 1 [of a b c d] a b c d show ?thesis by blast
  qed
  note 3 = convert_overflow [OF assms, folded p]
  have f: "py_float x = Inr (nearest_double False (numeral_value x))"
    "py_float y = Inr (nearest_double False (numeral_value y))"
    "py_float w = Inr (nearest_double False (numeral_value w))"
    "py_float h = Inr (nearest_double False (numeral_value h))"
    using assms by (simp_all add: py_float_numeral)
  from 2 have k: "int_digits x \<le> 307 \<and> int_digits y \<le> 307 \<and> int_digits w \<le> 307
      \<and> int_digits h \<le> 307
      \<longrightarrow> (\<exists>a b c d. int_float x = Inr a \<and> int_float y = Inr b \<and> int_float w = Inr c
              \<and> int_float h = Inr d
              \<and> parse_rect_string (PString (rect_text x y w h)) = Inr (a, b, c, d))"
    by blast
  show ?thesis
    by (intro conjI f 1 k 3)
qed

text \<open>Witness of C2, amended.\<close>

theorem parse_rect_string_truncates_witness:
  "is_numeral ''3.9'' \<and> int_float ''3.9'' = Inr 3 \<and> int_float ''4.1'' = Inr 4
   \<and> py_float ''3.9'' = Inr (Finite 8782019273372467 (- 51))
   \<and> parse_rect_string (PString ''{{1,2},{3.9,4.1}}'') = Inr (1, 2, 3, 4)
   \<and> parse_rect_string (PString ''{{1,2},{3.9,4.1}}'') \<noteq> Inl FloatInfinity"
proof -
  have n: "is_numeral ''1''" "is_numeral ''2''" "is_numeral ''3.9''" "is_numeral ''4.1''"
    by code_simp+
  have i: "int_float ''1'' = Inr 1 \<and> int_float ''2'' = Inr 2 \<and> int_float ''3.9'' = Inr 3
    \<and> int_float ''4.1'' = Inr 4"
    by code_simp
  have d: "int_digits ''1'' \<le> 307 \<and> int_digits ''2'' \<le> 307 \<and> int_digits ''3.9'' \<le> 307
    \<and> int_digits ''4.1'' \<le> 307"
    by (simp add: int_digits_def is_digit_def)
  have v: "nearest_double False (numeral_value ''3.9'') = Finite 8782019273372467 (- 51)"
    by code_simp
  note t = parse_rect_string_truncates [OF n, of 1 2 3 4]
  from t i have 1: "parse_rect_string (PString (rect_text ''1'' ''2'' ''3.9'' ''4.1'')) = Inr (1, 2, 3, 4)"
    by blast
  from t d have "\<exists>a b c d. parse_rect_string (PString (rect_text ''1'' ''2'' ''3.9'' ''4.1''))
      = Inr (a, b, c, d)"
    by blast
  then have 2: "parse_rect_string (PString (rect_text ''1'' ''2'' ''3.9'' ''4.1'')) \<noteq> Inl FloatInfinity"
    by auto
  from t v have "py_float ''3.9'' = Inr (Finite 8782019273372467 (- 51))"
    by simp
  with 1 2 show ?thesis using n i by (simp add: rect_text_def rect_body_def)
qed

text \<open>Claim C10. \<^verbatim>\<open>parse_rect_string\<close> strips every leading and trailing brace: whatever
  braces stand before and after the body \<^verbatim>\<open>x,y},{w,h\<close> (none, one layer, three layers),
  the result is that of the canonical form \<^verbatim>\<open>{{x,y},{w,h}}\<close>, and it is the 4-tuple of
  the converted components whenever the four conversions succeed.\<close>

theorem parse_rect_string_any_braces:
  assumes "braces l" "braces r" "plain x" "plain y" "plain w" "plain h"
  shows "parse_rect_string (PString (l @ rect_body x y w h @ r))
           = parse_rect_string (PString (rect_text x y w h))
       \<and> (int_float x = Inr a \<and> int_float y = Inr b \<and> int_float w = Inr c \<and> int_float h = Inr d
            \<longrightarrow> parse_rect_string (PString (l @ rect_body x y w h @ r)) = Inr (a, b, c, d))"
  using assms by (simp add: parse_rect_body parse_rect_text convert_int_float)

text \<open>Witness of C10: \<^verbatim>\<open>{{{1,2},{3,4}}}\<close> and \<^verbatim>\<open>{1,2},{3,4}\<close>.\<close>

theorem parse_rect_string_any_braces_witness:
  "parse_rect_string (PString ''{{{1,2},{3,4}}}'') = Inr (1, 2, 3, 4)
   \<and> parse_rect_string (PString ''{1,2},{3,4}'') = Inr (1, 2, 3, 4)
   \<and> parse_rect_string (PString ''{{1,2},{3,4}}'') = Inr (1, 2, 3, 4)"
proof -
  have b: "braces ''{{{''" "braces ''}}}''" "braces ''{''" "braces ''}''"
    by (simp_all add: braces_def)
  have p: "plain ''1''" "plain ''2''" "plain ''3''" "plain ''4''"
    by (simp_all add: plain_def)
  have c: "parse_rect_string (PString ''{{1,2},{3,4}}'') = Inr (1, 2, 3, 4)"
    by code_simp
  from parse_rect_string_any_braces [OF b(1,2) p]
  have 1: "parse_rect_string (PString ''{{{1,2},{3,4}}}'') = Inr (1, 2, 3, 4)"
    using c by (simp add: rect_text_def rect_body_def)
  from parse_rect_string_any_braces [OF b(3,4) p]
  have 2: "parse_rect_string (PString ''{1,2},{3,4}'') = Inr (1, 2, 3, 4)"
    using c by (simp add: rect_text_def rect_body_def)
  from 1 2 c show ?thesis by simp
qed

text \<open>Claim C8 says that the rectangle string is accepted also when its braces have
  surrounding whitespace. It is not: \<^verbatim>\<open>strip('{}')\<close> stops at a space, so in
  \<^verbatim>\<open>{ {1,2},{3,4} }\<close> the first component reaches \<^verbatim>\<open>float\<close> as \<^verbatim>\<open>" {1"\<close> and the
  conversion raises.\<close>

theorem parse_rect_string_whitespace_counterexample:
  "parse_rect_string (PString ''{{1,2},{3,4}}'') = Inr (1, 2, 3, 4)
   \<and> parse_rect_string (PString ''{ {1,2},{3,4} }'') = Inl (FloatSyntax '' {1'')"
  by code_simp

text \<open>Claim C8, amended. Whitespace is accepted around each of the four components, where
  \<^verbatim>\<open>float\<close> ignores it, and nowhere else. When the whitespace-free form parses to a
  4-tuple, so does the form with whitespace before and after every component, to the
  same 4-tuple, and with any number of opening and closing braces. Whitespace on the
  outer side of a brace (before or between the opening braces, in the separator after
  its closing or before its opening brace, between or after the closing braces) is never
  accepted, whatever whitespace the components have: \<^verbatim>\<open>parse_rect_string\<close> raises
  \<^verbatim>\<open>ValueError\<close>, from \<^verbatim>\<open>float\<close> or as "Cannot parse rect string".\<close>

theorem parse_rect_string_whitespace_in_components:
  assumes "plain x" "plain y" "plain w" "plain h"
    and "list_all is_space p1" "list_all is_space q1" "list_all is_space p2" "list_all is_space q2"
    and "list_all is_space p3" "list_all is_space q3" "list_all is_space p4" "list_all is_space q4"
    and "open_braces pre" "close_braces post" "list_all is_space s1" "list_all is_space s2"
  shows "(parse_rect_string (PString (rect_text x y w h)) = Inr q
            \<longrightarrow> parse_rect_string
                  (PString (rect_text (p1 @ x @ q1) (p2 @ y @ q2) (p3 @ w @ q3) (p4 @ h @ q4)))
                = Inr q)
       \<and> (parse_rect_string (PString (rect_text x y w h)) = Inr q
            \<and> \<not> list_ex is_space (pre @ s1 @ s2 @ post)
            \<longrightarrow> parse_rect_string
                  (PString (rect_spaced pre (p1 @ x @ q1) (p2 @ y @ q2) s1 s2
                              (p3 @ w @ q3) (p4 @ h @ q4) post))
                = Inr q)
       \<and> (list_ex is_space (pre @ s1 @ s2 @ post)
            \<longrightarrow> (\<exists>t. parse_rect_string
                        (PString (rect_spaced pre (p1 @ x @ q1) (p2 @ y @ q2) s1 s2
                                    (p3 @ w @ q3) (p4 @ h @ q4) post))
                      = Inl (FloatSyntax t)
                    \<or> parse_rect_string
                        (PString (rect_spaced pre (p1 @ x @ q1) (p2 @ y @ q2) s1 s2
                                    (p3 @ w @ q3) (p4 @ h @ q4) post))
                      = Inl (CannotParse t)))"
proof -
  let ?X = "p1 @ x @ q1" and ?Y = "p2 @ y @ q2" and ?W = "p3 @ w @ q3" and ?H = "p4 @ h @ q4"
  let ?S = "rect_spaced pre ?X ?Y s1 s2 ?W ?H post"
  have pl: "plain ?X" "plain ?Y" "plain ?W" "plain ?H"
    using assms(1-12) by (simp_all add: plain_append space_plain)
  have pad: "convert ?X ?Y ?W ?H = Inr q"
    if "parse_rect_string (PString (rect_text x y w h)) = Inr q"
  proof -
    from that have "convert x y w h = Inr q"
      using assms(1-4) by (simp add: parse_rect_text)
    then show ?thesis using assms(5-12) by (rule convert_pad)
  qed
  have 1: "parse_rect_string (PString (rect_text ?X ?Y ?W ?H)) = Inr q"
    if "parse_rect_string (PString (rect_text x y w h)) = Inr q"
    using pad [OF that] pl by (simp add: parse_rect_text)
  from assms(13) obtain l ob where pre: "pre = l @ ob" and l: "braces l"
    and ob: "CHR '','' \<notin> set ob" "CHR ''}'' \<notin> set ob"
    and obh: "ob \<noteq> [] \<longrightarrow> is_space (hd ob) \<and> CHR ''{'' \<in> set ob"
    and obe: "ob = [] \<longleftrightarrow> \<not> list_ex is_space pre"
    by (rule open_braces_split)
  from assms(14) obtain cb r where post: "post = cb @ r" and r: "braces r"
    and cb: "CHR '','' \<notin> set cb" "CHR ''{'' \<notin> set cb"
    and cbl: "cb \<noteq> [] \<longrightarrow> is_space (last cb) \<and> CHR ''}'' \<in> set cb"
    and cbe: "cb = [] \<longleftrightarrow> \<not> list_ex is_space post"
    by (rule close_braces_split)
  note pX = plainD [OF pl(1)] and pH = plainD [OF pl(4)]
  let ?a = "ob @ ?X" and ?d = "?H @ cb"
  let ?T = "?a @ '','' @ ?Y @ ''}'' @ s1 @ '','' @ s2 @ ''{'' @ ?W @ '','' @ ?d"
  have a: "CHR '','' \<notin> set ?a" "CHR ''}'' \<notin> set ?a"
    using ob pX by simp_all
  have ah: "hd ?a \<noteq> CHR ''{''" if "?a \<noteq> []"
  proof (cases "ob = []")
    case True
    with that have "hd ?a \<in> set ?X" by (metis append_Nil hd_in_set)
    with pX(1) show ?thesis by metis
  next
    case False
    then have "is_space (hd ?a)" using obh by simp
    then show ?thesis by (rule space_facts)
  qed
  have d: "CHR '','' \<notin> set ?d" "CHR ''{'' \<notin> set ?d"
    using cb pH by simp_all
  have dl: "last ?d \<noteq> CHR ''}''" if "?d \<noteq> []"
  proof (cases "cb = []")
    case True
    with that have "last ?d \<in> set ?H" by (metis append_Nil2 last_in_set)
    with pH(2) show ?thesis by metis
  next
    case False
    then have "is_space (last ?d)" using cbl by simp
    then show ?thesis by (rule space_facts)
  qed
  have S: "?S = l @ ?T @ r"
    by (simp add: rect_spaced_def pre post)
  have tok: "parse_rect_str ?S =
     (if s1 = [] \<and> s2 = [] then convert ?a ?Y ?W ?d else Inl (CannotParse ?T))"
    unfolding S using a ah pl(2,3) d dl l r assms(15,16) by (rule parse_rect_tokens)
  have ex: "list_ex is_space (pre @ s1 @ s2 @ post)
      \<longleftrightarrow> ob \<noteq> [] \<or> s1 \<noteq> [] \<or> s2 \<noteq> [] \<or> cb \<noteq> []"
    using obe cbe spaces_ex [OF assms(15)] spaces_ex [OF assms(16)]
    by (simp only: list_ex_append) blast
  have 2: "parse_rect_string (PString ?S) = Inr q"
    if p: "parse_rect_string (PString (rect_text x y w h)) = Inr q"
      and n: "\<not> list_ex is_space (pre @ s1 @ s2 @ post)"
  proof -
    from n ex have e: "ob = []" "s1 = []" "s2 = []" "cb = []" by blast+
    from tok have "parse_rect_str ?S = convert ?X ?Y ?W ?H" unfolding e by simp
    with pad [OF p] show ?thesis by simp
  qed
  have 3: "\<exists>t. parse_rect_string (PString ?S) = Inl (FloatSyntax t)
             \<or> parse_rect_string (PString ?S) = Inl (CannotParse t)"
    if "list_ex is_space (pre @ s1 @ s2 @ post)"
  proof (cases "s1 = [] \<and> s2 = []")
    case False
    with tok have "parse_rect_string (PString ?S) = Inl (CannotParse ?T)" by simp
    then show ?thesis by blast
  next
    case True
    with that ex have "ob \<noteq> [] \<or> cb \<noteq> []" by blast
    then have "(\<exists>e. py_float ?a = Inl e) \<or> (\<exists>e. py_float ?d = Inl e)"
    proof
      assume "ob \<noteq> []"
      then have "CHR ''{'' \<in> set ?a" using obh by simp
      then have "py_float ?a = Inl (FloatSyntax ?a)" by (rule py_float_brace) simp
      then show ?thesis by blast
    next
      assume "cb \<noteq> []"
      then have "CHR ''}'' \<in> set ?d" using cbl by simp
      then have "py_float ?d = Inl (FloatSyntax ?d)" by (rule py_float_brace) simp
      then show ?thesis by blast
    qed
    then have "\<exists>t. convert ?a ?Y ?W ?d = Inl (FloatSyntax t)"
      by (intro convert_float_error) blast
    with tok True show ?thesis by auto
  qed
  from 1 2 3 show ?thesis by blast
qed

text \<open>Witness of C8, amended: whitespace around the components, and whitespace at each
  of the six places on the outer side of a brace.\<close>

theorem parse_rect_string_whitespace_in_components_witness:
  "parse_rect_string (PString ''{{ 1 , 2 },{ 3 , 4 }}'') = Inr (1, 2, 3, 4)
   \<and> parse_rect_string (PString ''{{{ 1 , 2 },{ 3 , 4 }}}'') = Inr (1, 2, 3, 4)
   \<and> (\<exists>t. parse_rect_string (PString '' {{1,2},{3,4}}'') = Inl (FloatSyntax t)
          \<or> parse_rect_string (PString '' {{1,2},{3,4}}'') = Inl (CannotParse t))
   \<and> (\<exists>t. parse_rect_string (PString ''{ {1,2},{3,4}}'') = Inl (FloatSyntax t)
          \<or> parse_rect_string (PString ''{ {1,2},{3,4}}'') = Inl (CannotParse t))
   \<and> (\<exists>t. parse_rect_string (PString ''{{1,2} ,{3,4}}'') = Inl (FloatSyntax t)
          \<or> parse_rect_string (PString ''{{1,2} ,{3,4}}'') = Inl (CannotParse t))
   \<and> (\<exists>t. parse_rect_string (PString ''{{1,2}, {3,4}}'') = Inl (FloatSyntax t)
          \<or> parse_rect_string (PString ''{{1,2}, {3,4}}'') = Inl (CannotParse t))
   \<and> (\<exists>t. parse_rect_string (PString ''{{1,2},{3,4} }'') = Inl (FloatSyntax t)
          \<or> parse_rect_string (PString ''{{1,2},{3,4} }'') = Inl (CannotParse t))
   \<and> (\<exists>t. parse_rect_string (PString ''{{1,2},{3,4}} '') = Inl (FloatSyntax t)
          \<or> parse_rect_string (PString ''{{1,2},{3,4}} '') = Inl (CannotParse t))
   \<and> (\<exists>t. parse_rect_string (PString ''{ {1 , 2},{3,4} }'') = Inl (FloatSyntax t)
          \<or> parse_rect_string (PString ''{ {1 , 2},{3,4} }'') = Inl (CannotParse t))"
proof -
  have p: "plain ''1''" "plain ''2''" "plain ''3''" "plain ''4''"
    by (simp_all add: plain_def)
  have s: "list_all is_space '' ''" by (simp add: is_space_def)
  have e: "list_all is_space []" by simp
  have sp: "is_space CHR '' ''" "\<not> is_space CHR ''{''" "\<not> is_space CHR ''}''"
    by (simp_all add: is_space_def)
  have c: "parse_rect_string (PString (rect_text ''1'' ''2'' ''3'' ''4'')) = Inr (1, 2, 3, 4)"
    by code_simp
  have o: "open_braces ''{{''" "open_braces '' {{''" "open_braces ''{ {''" "open_braces ''{{{''"
    by (simp_all add: open_braces_def sp)
  have k: "close_braces ''}}''" "close_braces ''} }''" "close_braces ''}} ''"
    "close_braces ''}}}''"
    by (simp_all add: close_braces_def sp)
  from parse_rect_string_whitespace_in_components [OF p s s s s s s s s o(1) k(1) e e] c
  have 1: "parse_rect_string (PString ''{{ 1 , 2 },{ 3 , 4 }}'') = Inr (1, 2, 3, 4)"
    by (simp add: rect_text_def rect_body_def)
  from parse_rect_string_whitespace_in_components [OF p s s s s s s s s o(4) k(4) e e,
      of "(1, 2, 3, 4)"] c
  have 2: "parse_rect_string (PString ''{{{ 1 , 2 },{ 3 , 4 }}}'') = Inr (1, 2, 3, 4)"
    by (simp add: rect_spaced_def sp)
  from parse_rect_string_whitespace_in_components [OF p e e e e e e e e o(2) k(1) e e]
  have 3: "\<exists>t. parse_rect_string (PString '' {{1,2},{3,4}}'') = Inl (FloatSyntax t)
          \<or> parse_rect_string (PString '' {{1,2},{3,4}}'') = Inl (CannotParse t)"
    by (simp add: rect_spaced_def sp)
  from parse_rect_string_whitespace_in_components [OF p e e e e e e e e o(3) k(1) e e]
  have 4: "\<exists>t. parse_rect_string (PString ''{ {1,2},{3,4}}'') = Inl (FloatSyntax t)
          \<or> parse_rect_string (PString ''{ {1,2},{3,4}}'') = Inl (CannotParse t)"
    by (simp add: rect_spaced_def sp)
  from parse_rect_string_whitespace_in_components [OF p e e e e e e e e o(1) k(1) s e]
  have 5: "\<exists>t. parse_rect_string (PString ''{{1,2} ,{3,4}}'') = Inl (FloatSyntax t)
          \<or> parse_rect_string (PString ''{{1,2} ,{3,4}}'') = Inl (CannotParse t)"
    by (simp add: rect_spaced_def sp)
  from parse_rect_string_whitespace_in_components [OF p e e e e e e e e o(1) k(1) e s]
  have 6: "\<exists>t. parse_rect_string (PString ''{{1,2}, {3,4}}'') = Inl (FloatSyntax t)
          \<or> parse_rect_string (PString ''{{1,2}, {3,4}}'') = Inl (CannotParse t)"
    by (simp add: rect_spaced_def sp)
  from parse_rect_string_whitespace_in_components [OF p e e e e e e e e o(1) k(2) e e]
  have 7: "\<exists>t. parse_rect_string (PString ''{{1,2},{3,4} }'') = Inl (FloatSyntax t)
          \<or> parse_rect_string (PString ''{{1,2},{3,4} }'') = Inl (CannotParse t)"
    by (simp add: rect_spaced_def sp)
  from parse_rect_string_whitespace_in_components [OF p e e e e e e e e o(1) k(3) e e]
  have 8: "\<exists>t. parse_rect_string (PString ''{{1,2},{3,4}} '') = Inl (FloatSyntax t)
          \<or> parse_rect_string (PString ''{{1,2},{3,4}} '') = Inl (CannotParse t)"
    by (simp add: rect_spaced_def sp)
  from parse_rect_string_whitespace_in_components [OF p e s s e e e e e o(3) k(2) e e]
  have 9: "\<exists>t. parse_rect_string (PString ''{ {1 , 2},{3,4} }'') = Inl (FloatSyntax t)
          \<or> parse_rect_string (PString ''{ {1 , 2},{3,4} }'') = Inl (CannotParse t)"
    by (simp add: rect_spaced_def sp)
  from 1 2 3 4 5 6 7 8 9 show ?thesis by (intro conjI)
qed

subsection \<open>The layout of the document\<close>

lemma key_in_dict: "k \<in> fst ` set kvs \<longleftrightarrow> map_of kvs k \<noteq> None"
  by (simp add: map_of_eq_None_iff)

lemma parse_plist_dict:
  "parse_plist (Inr (PDict kvs)) =
     (case map_of kvs ''frames'' of Some p \<Rightarrow> Inr p
      | None \<Rightarrow>
        (case map_of kvs ''metadata'' of None \<Rightarrow> Inl UnsupportedFormat
         | Some md \<Rightarrow>
           (case py_in ''frames'' md of Inl e \<Rightarrow> Inl e
            | Inr False \<Rightarrow> Inl UnsupportedFormat
            | Inr True \<Rightarrow> py_getitem md ''frames'')))"
proof (cases "map_of kvs ''frames''")
  case (Some p)
  then show ?thesis by (simp add: parse_plist_def key_in_dict)
next
  case None
  show ?thesis
  proof (cases "map_of kvs ''metadata''")
    case None
    with \<open>map_of kvs ''frames'' = None\<close> show ?thesis
      by (simp add: parse_plist_def key_in_dict)
  next
    case (Some md)
    with \<open>map_of kvs ''frames'' = None\<close> show ?thesis
      by (simp add: parse_plist_def key_in_dict)
  qed
qed

lemma py_getitem_not_unsupported: "py_getitem v k \<noteq> Inl UnsupportedFormat"
  by (cases v) (simp_all split: option.split)

lemma py_in_not_unsupported: "py_in k v \<noteq> Inl UnsupportedFormat"
  by (cases v) simp_all

text \<open>Claim C3, amended. \<^verbatim>\<open>parse_plist\<close> tests that the keys are present, not that
  their values are mappings: on a document that is a dictionary it raises
  \<^verbatim>\<open>ValueError("Unsupported plist format")\<close> exactly when the dictionary has no key
  \<^verbatim>\<open>frames\<close> and either no key \<^verbatim>\<open>metadata\<close> or a \<^verbatim>\<open>metadata\<close> value in which
  \<^verbatim>\<open>'frames' in ...\<close> is false. An exception of \<^verbatim>\<open>parse_plist\<close> leaves
  \<^verbatim>\<open>split_sprites\<close> before any entry is processed, and \<^verbatim>\<open>main\<close> exits with
  status 1.\<close>

theorem parse_plist_unsupported_iff:
  "(parse_plist (Inr (PDict kvs)) = Inl UnsupportedFormat \<longleftrightarrow>
      map_of kvs ''frames'' = None \<and>
      (map_of kvs ''metadata'' = None \<or>
       (\<exists>md. map_of kvs ''metadata'' = Some md \<and> py_in ''frames'' md = Inr False)))
   \<and> (parse_plist plist_file = Inl e \<longrightarrow>
        split_sprites lib plist_file png_file dir = Inl e
        \<and> main_status lib plist_file png_file dir = 1)"
proof -
  have "parse_plist (Inr (PDict kvs)) = Inl UnsupportedFormat \<longleftrightarrow>
      map_of kvs ''frames'' = None \<and>
      (map_of kvs ''metadata'' = None \<or>
       (\<exists>md. map_of kvs ''metadata'' = Some md \<and> py_in ''frames'' md = Inr False))"
    unfolding parse_plist_dict
    by (auto simp: py_getitem_not_unsupported py_in_not_unsupported
          split: option.splits sum.splits bool.splits)
  moreover have "parse_plist plist_file = Inl e \<longrightarrow>
        split_sprites lib plist_file png_file dir = Inl e
        \<and> main_status lib plist_file png_file dir = 1"
    by (simp add: split_sprites_def main_status_def)
  ultimately show ?thesis by blast
qed

text \<open>Witness of C3, amended.\<close>

theorem parse_plist_unsupported_iff_witness:
  "parse_plist (Inr (PDict [(''metadata'', PDict [(''format'', PInteger 2)])])) = Inl UnsupportedFormat
   \<and> split_sprites pillow (Inr (PDict [(''metadata'', PDict [(''format'', PInteger 2)])]))
        (Inr \<lparr>width = 1, height = 1, pixel_at = (\<lambda>i j. (0, 0, 0, 255))\<rparr>) Map.empty
      = Inl UnsupportedFormat
   \<and> main_status pillow (Inr (PDict [(''metadata'', PDict [(''format'', PInteger 2)])]))
        (Inr \<lparr>width = 1, height = 1, pixel_at = (\<lambda>i j. (0, 0, 0, 255))\<rparr>) Map.empty = 1"
proof -
  let ?doc = "PDict [(''metadata'', PDict [(''format'', PInteger 2)])]"
  have 1: "map_of [(''metadata'', PDict [(''format'', PInteger 2)])] ''frames'' = None \<and>
      (map_of [(''metadata'', PDict [(''format'', PInteger 2)])] ''metadata'' = None \<or>
       (\<exists>md. map_of [(''metadata'', PDict [(''format'', PInteger 2)])] ''metadata'' = Some md
          \<and> py_in ''frames'' md = Inr False))"
    by simp
  have 2: "parse_plist (Inr ?doc) = Inl UnsupportedFormat"
    using parse_plist_unsupported_iff
      [of "[(''metadata'', PDict [(''format'', PInteger 2)])]" "Inr ?doc" UnsupportedFormat] 1
    by blast
  with parse_plist_unsupported_iff
      [of "[(''metadata'', PDict [(''format'', PInteger 2)])]" "Inr ?doc" UnsupportedFormat
        pillow "Inr \<lparr>width = 1, height = 1, pixel_at = (\<lambda>i j. (0, 0, 0, 255))\<rparr>" Map.empty]
  show ?thesis by blast
qed

text \<open>Claim C3 says that parsing fails with the format error exactly when neither key path
  resolves to a mapping. In the document \<^verbatim>\<open>{"frames": "x"}\<close> neither does (the value of
  \<^verbatim>\<open>frames\<close> is a string and there is no \<^verbatim>\<open>metadata\<close>), yet \<^verbatim>\<open>parse_plist\<close>
  returns the string; the run then stops at \<^verbatim>\<open>frames.items()\<close> with an
  \<^verbatim>\<open>AttributeError\<close>, not with the format error.\<close>

theorem parse_plist_frames_not_mapping_counterexample:
  "parse_plist (Inr (PDict [(''frames'', PString ''x'')])) = Inr (PString ''x'')
   \<and> split_sprites pillow (Inr (PDict [(''frames'', PString ''x'')]))
        (Inr \<lparr>width = 1, height = 1, pixel_at = (\<lambda>i j. (0, 0, 0, 255))\<rparr>) Map.empty
      = Inl AttributeError"
  by (simp add: parse_plist_def split_sprites_def)

text \<open>Claim C4. A frames payload under the top-level key \<^verbatim>\<open>frames\<close> and the same payload
  under \<^verbatim>\<open>metadata\<close>, \<^verbatim>\<open>frames\<close> give the same result, the payload. The flat layout is
  tried first: a dictionary with a key \<^verbatim>\<open>frames\<close> yields its value whatever else it
  holds, and the nested payload is used only when there is no top-level \<^verbatim>\<open>frames\<close>.\<close>

theorem parse_plist_flat_nested:
  "parse_plist (Inr (PDict [(''frames'', p)])) = Inr p
   \<and> parse_plist (Inr (PDict [(''metadata'', PDict [(''frames'', p)])])) = Inr p
   \<and> (map_of kvs ''frames'' = Some p \<longrightarrow> parse_plist (Inr (PDict kvs)) = Inr p)
   \<and> (map_of kvs ''frames'' = None \<and> map_of kvs ''metadata'' = Some (PDict md)
        \<and> map_of md ''frames'' = Some p \<longrightarrow> parse_plist (Inr (PDict kvs)) = Inr p)"
  unfolding parse_plist_dict by (simp add: key_in_dict)

text \<open>Witness of C4: a document with both layouts, and a nested one.\<close>

theorem parse_plist_flat_nested_witness:
  "parse_plist (Inr (PDict [(''metadata'', PDict [(''frames'', PDict [(''b'', PString ''{{1,1},{1,1}}'')])]),
                            (''frames'', PDict [(''a'', PString ''{{0,0},{1,1}}'')])]))
     = Inr (PDict [(''a'', PString ''{{0,0},{1,1}}'')])
   \<and> parse_plist (Inr (PDict [(''texture'', PString ''t''),
                            (''metadata'', PDict [(''frames'', PDict [(''b'', PString ''{{1,1},{1,1}}'')])])]))
     = Inr (PDict [(''b'', PString ''{{1,1},{1,1}}'')])"
proof -
  let ?a = "PDict [(''a'', PString ''{{0,0},{1,1}}'')]"
  let ?b = "PDict [(''b'', PString ''{{1,1},{1,1}}'')]"
  let ?k1 = "[(''metadata'', PDict [(''frames'', ?b)]), (''frames'', ?a)]"
  let ?k2 = "[(''texture'', PString ''t''), (''metadata'', PDict [(''frames'', ?b)])]"
  have 1: "map_of ?k1 ''frames'' = Some ?a" by simp
  have 2: "map_of ?k2 ''frames'' = None \<and> map_of ?k2 ''metadata'' = Some (PDict [(''frames'', ?b)])
        \<and> map_of [(''frames'', ?b)] ''frames'' = Some ?b" by simp
  from parse_plist_flat_nested [of ?a ?k1] 1 have "parse_plist (Inr (PDict ?k1)) = Inr ?a" by blast
  moreover from parse_plist_flat_nested [of ?b ?k2 "[(''frames'', ?b)]"] 2
  have "parse_plist (Inr (PDict ?k2)) = Inr ?b" by blast
  ultimately show ?thesis by simp
qed

subsection \<open>The loop over the entries\<close>

lemma process_entry_skip:
  assumes "frame_str_of d = None"
  shows "process_entry lib img st (n, d) = st\<lparr>printed := printed st @ [Skipping n]\<rparr>"
  using assms by (simp add: process_entry_def)

lemma process_entry_error:
  assumes "frame_str_of d = Some f" "extract_sprite lib img (output_dir st) n f = Inl e"
  shows "process_entry lib img st (n, d) = st\<lparr>printed := printed st @ [ErrorProcessing n e]\<rparr>"
  using assms by (simp add: process_entry_def)

lemma process_entry_saved:
  assumes "frame_str_of d = Some f" "extract_sprite lib img (output_dir st) n f = Inr (fn, dir')"
  shows "process_entry lib img st (n, d) =
           st\<lparr>count := count st + 1, printed := printed st @ [Saved fn], output_dir := dir'\<rparr>"
  using assms by (simp add: process_entry_def)

lemma extract_sprite_filename:
  assumes "extract_sprite lib img dir n f = Inr (fn, dir')"
  shows "fn = sprite_filename n"
  using assms by (auto simp: extract_sprite_def split: sum.splits prod.splits)

lemma split_loop_Cons:
  "split_loop lib img st (entry # rest) = split_loop lib img (process_entry lib img st entry) rest"
  by (simp add: split_loop_def)

lemma process_entry_line:
  "\<exists>ev. printed (process_entry lib img st entry) = printed st @ [ev]
     \<and> (frame_str_of (snd entry) = None \<longrightarrow> ev = Skipping (fst entry))
     \<and> (frame_str_of (snd entry) \<noteq> None \<longrightarrow> is_result ev \<and> result_of ev entry)"
proof (cases entry)
  case (Pair n d)
  show ?thesis
  proof (cases "frame_str_of d")
    case None
    with Pair show ?thesis by (simp add: process_entry_skip)
  next
    case (Some f)
    show ?thesis
    proof (cases "extract_sprite lib img (output_dir st) n f")
      case (Inl e)
      with Some Pair show ?thesis by (simp add: process_entry_error)
    next
      case (Inr r)
      obtain fn dir' where r: "r = (fn, dir')" by (cases r) auto
      with Inr have "fn = sprite_filename n" by (simp add: extract_sprite_filename)
      with Inr r Some Pair show ?thesis by (simp add: process_entry_saved)
    qed
  qed
qed

lemma split_loop_lines:
  "\<exists>evs. printed (split_loop lib img st entries) = printed st @ evs
     \<and> length evs = length entries
     \<and> list_all2 result_of (filter is_result evs) (frame_records entries)"
proof (induction entries arbitrary: st)
  case Nil
  show ?case by (simp add: split_loop_def frame_records_def)
next
  case (Cons entry rest)
  from process_entry_line [of lib img st entry]
  obtain ev where ev: "printed (process_entry lib img st entry) = printed st @ [ev]"
    "frame_str_of (snd entry) = None \<longrightarrow> ev = Skipping (fst entry)"
    "frame_str_of (snd entry) \<noteq> None \<longrightarrow> is_result ev \<and> result_of ev entry"
    by (elim exE conjE)
  from Cons.IH [of "process_entry lib img st entry"] obtain evs where
    evs: "printed (split_loop lib img (process_entry lib img st entry) rest)
            = printed (process_entry lib img st entry) @ evs"
    "length evs = length rest"
    "list_all2 result_of (filter is_result evs) (frame_records rest)"
    by (elim exE conjE)
  have 1: "printed (split_loop lib img st (entry # rest)) = printed st @ (ev # evs)"
    using ev(1) evs(1) by (simp add: split_loop_Cons)
  have 2: "length (ev # evs) = length (entry # rest)" using evs(2) by simp
  have 3: "list_all2 result_of (filter is_result (ev # evs)) (frame_records (entry # rest))"
  proof (cases "frame_str_of (snd entry)")
    case None
    with ev(2) evs(3) show ?thesis by (simp add: frame_records_def)
  next
    case (Some f)
    with ev(3) evs(3) show ?thesis by (simp add: frame_records_def)
  qed
  show ?case
    by (rule exI [of _ "ev # evs"]) (intro conjI 1 2 3)
qed

lemma split_loop_run:
  "split_loop lib img st entries =
     st\<lparr>count := count st + length (filter is_saved (run_lines lib img (output_dir st) entries)),
        printed := printed st @ run_lines lib img (output_dir st) entries,
        output_dir := run_dir lib img (output_dir st) entries\<rparr>"
proof (induction entries arbitrary: st)
  case Nil
  show ?case by (simp add: split_loop_def)
next
  case (Cons entry rest)
  obtain n d where nd: "entry = (n, d)" by (cases entry) auto
  show ?case
  proof (cases "frame_str_of d")
    case None
    then have "process_entry lib img st entry = st\<lparr>printed := printed st @ [Skipping n]\<rparr>"
      unfolding nd by (rule process_entry_skip)
    with None nd show ?thesis by (simp add: split_loop_Cons Cons.IH)
  next
    case (Some f)
    show ?thesis
    proof (cases "extract_sprite lib img (output_dir st) n f")
      case (Inl e)
      with Some have "process_entry lib img st entry
          = st\<lparr>printed := printed st @ [ErrorProcessing n e]\<rparr>"
        unfolding nd by (rule process_entry_error)
      with Some Inl nd show ?thesis by (simp add: split_loop_Cons Cons.IH)
    next
      case (Inr r)
      obtain fn dir' where r: "r = (fn, dir')" by (cases r) auto
      with Some Inr have "process_entry lib img st entry
          = st\<lparr>count := count st + 1, printed := printed st @ [Saved fn], output_dir := dir'\<rparr>"
        unfolding nd by (simp add: process_entry_saved)
      with Some Inr r nd show ?thesis by (simp add: split_loop_Cons Cons.IH)
    qed
  qed
qed

lemma run_lines_length: "length (run_lines lib img dir entries) = length entries"
  by (induction entries arbitrary: dir) (simp_all split: option.splits sum.splits)

lemma run_lines_append:
  "run_lines lib img dir (xs @ ys)
     = run_lines lib img dir xs @ run_lines lib img (run_dir lib img dir xs) ys"
  by (induction xs arbitrary: dir) (simp_all split: option.splits sum.splits)

lemma run_dir_append:
  "run_dir lib img dir (xs @ ys) = run_dir lib img (run_dir lib img dir xs) ys"
  by (induction xs arbitrary: dir) (simp_all split: option.splits sum.splits)

lemma run_lines_nth:
  "run_lines lib img dir (xs @ entry # ys) ! length xs
     = hd (run_lines lib img (run_dir lib img dir xs) (entry # ys))"
proof -
  have "run_lines lib img dir (xs @ entry # ys) ! length (run_lines lib img dir xs)
     = hd (run_lines lib img (run_dir lib img dir xs) (entry # ys))"
    unfolding run_lines_append by (simp add: nth_append split: option.splits sum.splits)
  then show ?thesis by (simp only: run_lines_length)
qed

lemma run_entry_fails:
  assumes "hd (run_lines lib img dir ((n, d) # ys)) = ErrorProcessing n e"
  shows "run_lines lib img dir ((n, d) # ys) = ErrorProcessing n e # run_lines lib img dir ys"
    and "run_dir lib img dir ((n, d) # ys) = run_dir lib img dir ys"
    and "\<exists>f. frame_str_of d = Some f \<and> extract_sprite lib img dir n f = Inl e"
  using assms by (simp_all split: option.splits sum.splits)

lemma run_without_failing_entry:
  assumes "run_lines lib img dir (xs @ (n, d) # ys) ! length xs = ErrorProcessing n e"
  shows "run_lines lib img dir (xs @ (n, d) # ys)
           = take (length xs) (run_lines lib img dir (xs @ ys))
               @ ErrorProcessing n e # drop (length xs) (run_lines lib img dir (xs @ ys))"
    and "run_dir lib img dir (xs @ (n, d) # ys) = run_dir lib img dir (xs @ ys)"
    and "filter is_saved (run_lines lib img dir (xs @ (n, d) # ys))
           = filter is_saved (run_lines lib img dir (xs @ ys))"
proof -
  let ?dir = "run_dir lib img dir xs"
  from assms have h: "hd (run_lines lib img ?dir ((n, d) # ys)) = ErrorProcessing n e"
    by (simp only: run_lines_nth)
  note f = run_entry_fails [OF h]
  have l: "length (run_lines lib img dir xs) = length xs" by (rule run_lines_length)
  show "run_lines lib img dir (xs @ (n, d) # ys)
           = take (length xs) (run_lines lib img dir (xs @ ys))
               @ ErrorProcessing n e # drop (length xs) (run_lines lib img dir (xs @ ys))"
    unfolding run_lines_append f(1) using l by simp
  show "run_dir lib img dir (xs @ (n, d) # ys) = run_dir lib img dir (xs @ ys)"
    unfolding run_dir_append f(2) ..
  show "filter is_saved (run_lines lib img dir (xs @ (n, d) # ys))
           = filter is_saved (run_lines lib img dir (xs @ ys))"
    unfolding run_lines_append f(1) by simp
qed

text \<open>Claim C1. A run over a frames dictionary always completes: whatever the entries
  hold and whatever the imaging library does, \<^verbatim>\<open>split_sprites\<close> returns, and every entry
  has printed one line, in the order of the dictionary: the lines are those of
  \<^const>\<open>run_lines\<close>, where an entry that raises gives the error line of its own name and
  its own exception, and the entries after it are handled as if it were not there. The
  results (the lines of the entries that were not skipped) are one per frame record, in
  the same order: the saved line of its file name or the error line of its name. The
  counter is the number of saved lines. A failure concerns its entry only: when the line
  of an entry is an error line, the run over the dictionary without that entry returns
  the same counter and the same output directory, and prints the same lines but for that
  error line.\<close>

theorem split_sprites_one_result_per_entry:
  assumes "parse_plist plist_file = Inr (PDict entries)"
  shows "\<exists>st. split_sprites lib plist_file (Inr img) dir = Inr st
            \<and> printed st = run_lines lib img dir entries
            \<and> length (printed st) = length entries
            \<and> list_all2 result_of (filter is_result (printed st)) (frame_records entries)
            \<and> count st = length (filter is_saved (printed st))
            \<and> (entries = xs @ (n, d) # ys
                 \<and> printed st ! length xs = ErrorProcessing n e
                 \<and> parse_plist plist_file' = Inr (PDict (xs @ ys))
               \<longrightarrow> (\<exists>f. frame_str_of d = Some f
                        \<and> extract_sprite lib img
                             (output_dir (split_loop lib img
                                \<lparr>count = 0, printed = [], output_dir = dir\<rparr> xs)) n f = Inl e)
                   \<and> (\<exists>st'. split_sprites lib plist_file' (Inr img) dir = Inr st'
                        \<and> count st' = count st
                        \<and> output_dir st' = output_dir st
                        \<and> printed st = take (length xs) (printed st')
                             @ ErrorProcessing n e # drop (length xs) (printed st')))"
proof -
  let ?init = "\<lparr>count = 0, printed = [], output_dir = dir\<rparr>"
  let ?final = "split_loop lib img ?init entries"
  have s: "split_sprites lib plist_file (Inr img) dir = Inr ?final"
    using assms by (simp add: split_sprites_def)
  have p: "printed ?final = run_lines lib img dir entries"
    by (simp add: split_loop_run)
  have c: "count ?final = length (filter is_saved (printed ?final))"
    by (simp add: split_loop_run)
  from split_loop_lines [of lib img ?init entries]
  have l: "length (printed ?final) = length entries"
    and r: "list_all2 result_of (filter is_result (printed ?final)) (frame_records entries)"
    by auto
  have i: "(\<exists>f. frame_str_of d = Some f
              \<and> extract_sprite lib img (output_dir (split_loop lib img ?init xs)) n f = Inl e)
         \<and> (\<exists>st'. split_sprites lib plist_file' (Inr img) dir = Inr st'
              \<and> count st' = count ?final
              \<and> output_dir st' = output_dir ?final
              \<and> printed ?final = take (length xs) (printed st')
                   @ ErrorProcessing n e # drop (length xs) (printed st'))"
    if e: "entries = xs @ (n, d) # ys"
      and h: "printed ?final ! length xs = ErrorProcessing n e"
      and p': "parse_plist plist_file' = Inr (PDict (xs @ ys))"
  proof -
    let ?without = "split_loop lib img ?init (xs @ ys)"
    from h p have h': "run_lines lib img dir (xs @ (n, d) # ys) ! length xs = ErrorProcessing n e"
      unfolding e by simp
    note w = run_without_failing_entry [OF h']
    from h' have "hd (run_lines lib img (run_dir lib img dir xs) ((n, d) # ys))
        = ErrorProcessing n e"
      by (simp only: run_lines_nth)
    from run_entry_fails(3) [OF this]
    have 0: "\<exists>f. frame_str_of d = Some f
              \<and> extract_sprite lib img (output_dir (split_loop lib img ?init xs)) n f = Inl e"
      by (simp add: split_loop_run)
    have 1: "split_sprites lib plist_file' (Inr img) dir = Inr ?without"
      using p' by (simp add: split_sprites_def)
    have 2: "count ?without = count ?final"
      unfolding e by (simp add: split_loop_run w(3))
    have 3: "output_dir ?without = output_dir ?final"
      unfolding e by (simp add: split_loop_run w(2))
    have 4: "printed ?final = take (length xs) (printed ?without)
                   @ ErrorProcessing n e # drop (length xs) (printed ?without)"
      unfolding e using w(1) by (simp add: split_loop_run)
    from 0 1 2 3 4 show ?thesis by blast
  qed
  show ?thesis
    by (rule exI [of _ ?final]) (use s p l r c i in blast)
qed

text \<open>Witness of C1: the run over the example frames prints four lines, and its three
  results belong to the three frame records; the malformed entry \<^verbatim>\<open>bad\<close> fails alone,
  with its own exception, and the run over the frames without it saves the same two
  files and prints the other three lines.\<close>

theorem split_sprites_one_result_per_entry_witness:
  "parse_plist (Inr (PDict [(''frames'', PDict example_frames)])) = Inr (PDict example_frames)
   \<and> (\<exists>st. split_sprites pillow (Inr (PDict [(''frames'', PDict example_frames)]))
              (Inr example_image) Map.empty = Inr st
          \<and> printed st = [Saved ''a.png'', ErrorProcessing ''bad'' (CannotParse ''oops''),
                           Skipping ''skip'', Saved ''b.png'']
          \<and> count st = 2
          \<and> list_all2 result_of (filter is_result (printed st))
               [(''a.png'', PDict [(''frame'', PString ''{{0,0},{2,2}}'')]),
                (''bad'', PString ''oops''),
                (''b.png'', PString ''{{2,0},{2,2}}'')]
          \<and> (\<exists>st'. split_sprites pillow
                       (Inr (PDict [(''frames'', PDict (hd example_frames # drop 2 example_frames))]))
                       (Inr example_image) Map.empty = Inr st'
                 \<and> count st' = 2
                 \<and> output_dir st' = output_dir st
                 \<and> printed st' = [Saved ''a.png'', Skipping ''skip'', Saved ''b.png'']))"
proof -
  let ?doc = "Inr (PDict [(''frames'', PDict example_frames)])"
  let ?xs = "[hd example_frames]"
  let ?ys = "drop 2 example_frames"
  let ?doc' = "Inr (PDict [(''frames'', PDict (hd example_frames # drop 2 example_frames))])"
  have p: "parse_plist ?doc = Inr (PDict example_frames)"
    by (simp add: parse_plist_def)
  have p': "parse_plist ?doc' = Inr (PDict (?xs @ ?ys))"
    by (simp add: parse_plist_def)
  have e: "example_frames = ?xs @ (''bad'', PString ''oops'') # ?ys"
    by (simp add: example_frames_def)
  have r: "frame_records example_frames =
      [(''a.png'', PDict [(''frame'', PString ''{{0,0},{2,2}}'')]),
       (''bad'', PString ''oops''),
       (''b.png'', PString ''{{2,0},{2,2}}'')]"
    by (simp add: frame_records_def example_frames_def)
  have l: "printed (split_loop pillow example_image
              \<lparr>count = 0, printed = [], output_dir = Map.empty\<rparr> example_frames)
        = [Saved ''a.png'', ErrorProcessing ''bad'' (CannotParse ''oops''),
           Skipping ''skip'', Saved ''b.png'']"
    by code_simp
  have l': "printed (split_loop pillow example_image
              \<lparr>count = 0, printed = [], output_dir = Map.empty\<rparr> (?xs @ ?ys))
        = [Saved ''a.png'', Skipping ''skip'', Saved ''b.png'']"
    by code_simp
  from split_sprites_one_result_per_entry [OF p, of pillow example_image Map.empty
      ?xs "''bad''" "PString ''oops''" ?ys "CannotParse ''oops''" ?doc']
  obtain st where st: "split_sprites pillow ?doc (Inr example_image) Map.empty = Inr st"
    "printed st = run_lines pillow example_image Map.empty example_frames"
    "list_all2 result_of (filter is_result (printed st)) (frame_records example_frames)"
    "count st = length (filter is_saved (printed st))"
    "example_frames = ?xs @ (''bad'', PString ''oops'') # ?ys
       \<and> printed st ! length ?xs = ErrorProcessing ''bad'' (CannotParse ''oops'')
       \<and> parse_plist ?doc' = Inr (PDict (?xs @ ?ys))
     \<longrightarrow> (\<exists>f. frame_str_of (PString ''oops'') = Some f
              \<and> extract_sprite pillow example_image
                   (output_dir (split_loop pillow example_image
                      \<lparr>count = 0, printed = [], output_dir = Map.empty\<rparr> ?xs)) ''bad'' f
                  = Inl (CannotParse ''oops''))
         \<and> (\<exists>st'. split_sprites pillow ?doc' (Inr example_image) Map.empty = Inr st'
              \<and> count st' = count st
              \<and> output_dir st' = output_dir st
              \<and> printed st = take (length ?xs) (printed st')
                   @ ErrorProcessing ''bad'' (CannotParse ''oops'') # drop (length ?xs) (printed st'))"
    by blast
  from st(1) p have "st = split_loop pillow example_image
      \<lparr>count = 0, printed = [], output_dir = Map.empty\<rparr> example_frames"
    by (simp add: split_sprites_def)
  with l have pr: "printed st = [Saved ''a.png'', ErrorProcessing ''bad'' (CannotParse ''oops''),
                           Skipping ''skip'', Saved ''b.png'']"
    by simp
  then have c: "count st = 2" using st(4) by simp
  from pr have n: "printed st ! length ?xs = ErrorProcessing ''bad'' (CannotParse ''oops'')"
    by simp
  from st(5) e n p' obtain st' where st':
    "split_sprites pillow ?doc' (Inr example_image) Map.empty = Inr st'"
    "count st' = count st" "output_dir st' = output_dir st"
    by blast
  from st'(1) p' have "st' = split_loop pillow example_image
      \<lparr>count = 0, printed = [], output_dir = Map.empty\<rparr> (?xs @ ?ys)"
    by (simp add: split_sprites_def)
  with l' have pr': "printed st' = [Saved ''a.png'', Skipping ''skip'', Saved ''b.png'']"
    by simp
  from st(3) r have ra: "list_all2 result_of (filter is_result (printed st))
               [(''a.png'', PDict [(''frame'', PString ''{{0,0},{2,2}}'')]),
                (''bad'', PString ''oops''),
                (''b.png'', PString ''{{2,0},{2,2}}'')]"
    by simp
  from st'(1) st'(2) st'(3) pr' c
  have "\<exists>st'. split_sprites pillow ?doc' (Inr example_image) Map.empty = Inr st'
                 \<and> count st' = 2
                 \<and> output_dir st' = output_dir st
                 \<and> printed st' = [Saved ''a.png'', Skipping ''skip'', Saved ''b.png'']"
    by auto
  with p st(1) pr c ra show ?thesis by blast
qed

text \<open>Claim C5. The rectangle string of an entry is the value of the key \<^verbatim>\<open>frame\<close>
  when the entry is a dictionary with that key, else the value of the key
  \<^verbatim>\<open>textureRect\<close> when the dictionary has that one, and the entry's value itself when it
  is not a dictionary; the value chosen is what the extraction parses. A dictionary with
  neither key prints the skipping line and nothing else: no result, the counter and the
  output directory untouched, and the loop goes on with the remaining entries.\<close>

theorem frame_str_selection:
  "(map_of d ''frame'' = Some v \<longrightarrow> frame_str_of (PDict d) = Some v)
   \<and> (map_of d ''frame'' = None \<and> map_of d ''textureRect'' = Some v
        \<longrightarrow> frame_str_of (PDict d) = Some v)
   \<and> ((\<forall>d'. sprite_data \<noteq> PDict d') \<longrightarrow> frame_str_of sprite_data = Some sprite_data)
   \<and> (frame_str_of sprite_data = Some f \<longrightarrow>
        process_entry lib img st (n, sprite_data) =
          (case extract_sprite lib img (output_dir st) n f of
             Inl e \<Rightarrow> st\<lparr>printed := printed st @ [ErrorProcessing n e]\<rparr>
           | Inr (filename, dir') \<Rightarrow>
               st\<lparr>count := count st + 1, printed := printed st @ [Saved filename],
                  output_dir := dir'\<rparr>))
   \<and> (map_of d ''frame'' = None \<and> map_of d ''textureRect'' = None \<longrightarrow>
        frame_str_of (PDict d) = None
        \<and> process_entry lib img st (n, PDict d) = st\<lparr>printed := printed st @ [Skipping n]\<rparr>
        \<and> split_loop lib img st ((n, PDict d) # rest)
            = split_loop lib img (st\<lparr>printed := printed st @ [Skipping n]\<rparr>) rest)"
proof -
  have "(\<forall>d'. sprite_data \<noteq> PDict d') \<longrightarrow> frame_str_of sprite_data = Some sprite_data"
    by (cases sprite_data) simp_all
  then show ?thesis
    by (simp add: process_entry_def split_loop_Cons)
qed

text \<open>Witness of C5: the four shapes of an entry, in a run over the example image.\<close>

theorem frame_str_selection_witness:
  "frame_str_of (PDict [(''textureRect'', PString ''{{2,0},{2,2}}''), (''frame'', PString ''{{0,0},{2,2}}'')])
     = Some (PString ''{{0,0},{2,2}}'')
   \<and> frame_str_of (PDict [(''textureRect'', PString ''{{2,0},{2,2}}'')]) = Some (PString ''{{2,0},{2,2}}'')
   \<and> frame_str_of (PString ''{{2,0},{2,2}}'') = Some (PString ''{{2,0},{2,2}}'')
   \<and> frame_str_of (PDict [(''offset'', PString ''{0,0}'')]) = None
   \<and> printed (split_loop pillow example_image \<lparr>count = 0, printed = [], output_dir = Map.empty\<rparr>
        [(''skip'', PDict [(''offset'', PString ''{0,0}'')]), (''b.png'', PString ''{{2,0},{2,2}}'')])
      = [Skipping ''skip'', Saved ''b.png'']"
proof -
  let ?st0 = "\<lparr>count = 0, printed = [], output_dir = Map.empty :: string \<rightharpoonup> image\<rparr>"
  let ?both = "[(''textureRect'', PString ''{{2,0},{2,2}}''), (''frame'', PString ''{{0,0},{2,2}}'')]"
  let ?tex = "[(''textureRect'', PString ''{{2,0},{2,2}}'')]"
  let ?none = "[(''offset'', PString ''{0,0}'')]"
  have 1: "map_of ?both ''frame'' = Some (PString ''{{0,0},{2,2}}'')" by simp
  have 2: "map_of ?tex ''frame'' = None \<and> map_of ?tex ''textureRect'' = Some (PString ''{{2,0},{2,2}}'')"
    by simp
  have 3: "\<forall>d'. PString ''{{2,0},{2,2}}'' \<noteq> PDict d'" by simp
  have 4: "map_of ?none ''frame'' = None \<and> map_of ?none ''textureRect'' = None" by simp
  have 5: "printed (split_loop pillow example_image (?st0\<lparr>printed := printed ?st0 @ [Skipping ''skip'']\<rparr>)
        [(''b.png'', PString ''{{2,0},{2,2}}'')]) = [Skipping ''skip'', Saved ''b.png'']"
    by code_simp
  from frame_str_selection [of ?both "PString ''{{0,0},{2,2}}''"] 1
  have a: "frame_str_of (PDict ?both) = Some (PString ''{{0,0},{2,2}}'')" by simp
  from frame_str_selection [of ?tex "PString ''{{2,0},{2,2}}''"] 2
  have b: "frame_str_of (PDict ?tex) = Some (PString ''{{2,0},{2,2}}'')" by simp
  from frame_str_selection [of _ _ "PString ''{{2,0},{2,2}}''"] 3
  have c: "frame_str_of (PString ''{{2,0},{2,2}}'') = Some (PString ''{{2,0},{2,2}}'')" by simp
  from frame_str_selection [of ?none _ _ _ pillow example_image ?st0 "''skip''"
      "[(''b.png'', PString ''{{2,0},{2,2}}'')]"] 4
  have d: "frame_str_of (PDict ?none) = None"
    "split_loop pillow example_image ?st0 [(''skip'', PDict ?none), (''b.png'', PString ''{{2,0},{2,2}}'')]
      = split_loop pillow example_image (?st0\<lparr>printed := printed ?st0 @ [Skipping ''skip'']\<rparr>)
          [(''b.png'', PString ''{{2,0},{2,2}}'')]"
    by simp_all
  show ?thesis unfolding d(2) 5 using a b c d(1) by simp
qed

subsection \<open>File names\<close>

lemma path_name_last:
  assumes "CHR ''/'' \<notin> set name" "name \<noteq> []" "name \<noteq> ''.''"
  shows "path_name (dir @ ''/'' @ name) = name" "path_name name = name"
proof -
  have n: "split ''/'' name = [name]"
    by (rule split_no_sep) (use assms(1) in simp_all)
  have "split ''/'' (dir @ CHR ''/'' # name) = split ''/'' dir @ split ''/'' name"
    by (rule split_single)
  with n have "split ''/'' (dir @ ''/'' @ name) = split ''/'' dir @ [name]" by simp
  then show "path_name (dir @ ''/'' @ name) = name"
    using assms(2,3) by (simp add: path_name_def)
  show "path_name name = name"
    using n assms(2,3) by (simp add: path_name_def)
qed

lemma rfind_dot_ext:
  assumes "CHR ''.'' \<notin> set ext"
  shows "rfind_dot (base @ CHR ''.'' # ext) = Some (length base)"
proof -
  have "takeWhile (\<lambda>c. c \<noteq> CHR ''.'') (rev ext @ CHR ''.'' # rev base)
          = rev ext @ takeWhile (\<lambda>c. c \<noteq> CHR ''.'') (CHR ''.'' # rev base)"
    by (rule takeWhile_append2) (use assms in auto)
  then have "takeWhile (\<lambda>c. c \<noteq> CHR ''.'') (rev (base @ CHR ''.'' # ext)) = rev ext"
    by simp
  then show ?thesis by (simp add: rfind_dot_def)
qed

lemma stem_of_name:
  assumes "path_name p = base @ CHR ''.'' # ext" "base \<noteq> []" "ext \<noteq> []" "CHR ''.'' \<notin> set ext"
  shows "stem p = base"
  using assms(2,3) by (simp add: stem_def assms(1) rfind_dot_ext [OF assms(4)] Let_def)

lemma stem_no_dot:
  assumes "path_name p = base" "CHR ''.'' \<notin> set base"
  shows "stem p = base"
  using assms by (simp add: stem_def rfind_dot_def)

lemma sprite_filename_ext:
  assumes "base \<noteq> []" "CHR ''/'' \<notin> set base" "ext \<noteq> []" "CHR ''/'' \<notin> set ext" "CHR ''.'' \<notin> set ext"
  shows "sprite_filename (dir @ ''/'' @ base @ ''.'' @ ext) = base @ ''.png''"
    "sprite_filename (base @ ''.'' @ ext) = base @ ''.png''"
proof -
  let ?name = "base @ ''.'' @ ext"
  have s: "CHR ''/'' \<notin> set ?name" using assms(2,4) by simp
  have ne: "?name \<noteq> []" "?name \<noteq> ''.''" using assms(1) by (simp_all add: append_eq_Cons_conv)
  from path_name_last(1) [OF s ne, of dir] path_name_last(2) [OF s ne]
  have p: "path_name (dir @ ''/'' @ ?name) = base @ CHR ''.'' # ext"
    "path_name ?name = base @ CHR ''.'' # ext" by simp_all
  from stem_of_name [OF p(1) assms(1,3,5)]
  show "sprite_filename (dir @ ''/'' @ base @ ''.'' @ ext) = base @ ''.png''"
    by (simp add: sprite_filename_def)
  from stem_of_name [OF p(2) assms(1,3,5)]
  show "sprite_filename (base @ ''.'' @ ext) = base @ ''.png''"
    by (simp add: sprite_filename_def)
qed

lemma sprite_filename_plain:
  assumes "base \<noteq> []" "CHR ''/'' \<notin> set base" "CHR ''.'' \<notin> set base"
  shows "sprite_filename (dir @ ''/'' @ base) = base @ ''.png''"
    "sprite_filename base = base @ ''.png''"
proof -
  have ne: "base \<noteq> ''.''" using assms(3) by auto
  from path_name_last(1) [OF assms(2,1) ne, of dir] path_name_last(2) [OF assms(2,1) ne]
  have p: "path_name (dir @ ''/'' @ base) = base" "path_name base = base" by simp_all
  show "sprite_filename (dir @ ''/'' @ base) = base @ ''.png''"
    using stem_no_dot [OF p(1) assms(3)] by (simp add: sprite_filename_def)
  show "sprite_filename base = base @ ''.png''"
    using stem_no_dot [OF p(2) assms(3)] by (simp add: sprite_filename_def)
qed

lemma extract_sprite_ok:
  assumes "parse_rect_string f = Inr (x, y, w, h)"
    "crop lib img (x, y, x + w, y + h) = Inr s"
    "save lib dir (sprite_filename n) s = Inr dir'"
  shows "extract_sprite lib img dir n f = Inr (sprite_filename n, dir')"
  using assms by (simp add: extract_sprite_def)

lemma two_saves:
  assumes "sprite_filename n1 = sprite_filename n2"
    and "frame_str_of d1 = Some f1" "frame_str_of d2 = Some f2"
    and "parse_rect_string f1 = Inr (x1, y1, w1, h1)" "parse_rect_string f2 = Inr (x2, y2, w2, h2)"
    and "crop lib img (x1, y1, x1 + w1, y1 + h1) = Inr s1"
    and "crop lib img (x2, y2, x2 + w2, y2 + h2) = Inr s2"
    and "save lib (output_dir st) (sprite_filename n1) s1 = Inr ((output_dir st)(sprite_filename n1 \<mapsto> s1))"
    and "save lib ((output_dir st)(sprite_filename n1 \<mapsto> s1)) (sprite_filename n2) s2
           = Inr ((output_dir st)(sprite_filename n2 \<mapsto> s2))"
  shows "split_loop lib img st [(n1, d1), (n2, d2)] =
           st\<lparr>count := count st + 2,
              printed := printed st @ [Saved (sprite_filename n1), Saved (sprite_filename n1)],
              output_dir := (output_dir st)(sprite_filename n1 \<mapsto> s2)\<rparr>"
proof -
  let ?fn = "sprite_filename n1"
  let ?st1 = "st\<lparr>count := count st + 1, printed := printed st @ [Saved ?fn],
                 output_dir := (output_dir st)(?fn \<mapsto> s1)\<rparr>"
  have e1: "extract_sprite lib img (output_dir st) n1 f1 = Inr (?fn, (output_dir st)(?fn \<mapsto> s1))"
    using assms(4,6,8) by (rule extract_sprite_ok)
  have 1: "process_entry lib img st (n1, d1) = ?st1"
    using assms(2) e1 by (rule process_entry_saved)
  have "extract_sprite lib img ((output_dir st)(?fn \<mapsto> s1)) n2 f2
          = Inr (sprite_filename n2, (output_dir st)(sprite_filename n2 \<mapsto> s2))"
    using assms(5,7,9) by (rule extract_sprite_ok)
  then have e2: "extract_sprite lib img (output_dir ?st1) n2 f2 = Inr (?fn, (output_dir st)(?fn \<mapsto> s2))"
    using assms(1) by simp
  have 2: "process_entry lib img ?st1 (n2, d2) =
      ?st1\<lparr>count := count ?st1 + 1, printed := printed ?st1 @ [Saved ?fn],
           output_dir := (output_dir st)(?fn \<mapsto> s2)\<rparr>"
    using assms(3) e2 by (rule process_entry_saved)
  show ?thesis
    unfolding split_loop_def foldl.simps 1 2 by simp
qed

lemma pillow_crop_size:
  assumes "0 \<le> w" "0 \<le> h"
  shows "\<exists>s. crop pillow img (x, y, x + w, y + h) = Inr s \<and> width s = w \<and> height s = h"
  using assms by (simp add: pillow_def image_crop_def)

lemma pillow_save_writes:
  assumes "0 < width s" "0 < height s"
  shows "save pillow dir path s = Inr (dir(path \<mapsto> s))"
  using assms by (simp add: pillow_def image_save_def)


text \<open>Claim C7. The file name of a sprite is the stem of its name with \<^verbatim>\<open>.png\<close>
  appended: of a name \<^verbatim>\<open>dir/base.ext\<close> or \<^verbatim>\<open>base.ext\<close> it is \<^verbatim>\<open>base.png\<close>, and so it
  is of a name \<^verbatim>\<open>dir/base\<close> or \<^verbatim>\<open>base\<close> with no extension. When two entries of
  different names have the same file name and both are extracted, both print their saved
  line and count as successes, and the file holds the sprite of the later entry: nothing
  is reported.\<close>

theorem sprite_filename_collision_overwrites:
  "(base \<noteq> [] \<and> CHR ''/'' \<notin> set base \<and> ext \<noteq> [] \<and> CHR ''/'' \<notin> set ext \<and> CHR ''.'' \<notin> set ext
      \<longrightarrow> sprite_filename (dir @ ''/'' @ base @ ''.'' @ ext) = base @ ''.png''
          \<and> sprite_filename (base @ ''.'' @ ext) = base @ ''.png'')
   \<and> (base \<noteq> [] \<and> CHR ''/'' \<notin> set base \<and> CHR ''.'' \<notin> set base
      \<longrightarrow> sprite_filename (dir @ ''/'' @ base) = base @ ''.png''
          \<and> sprite_filename base = base @ ''.png'')
   \<and> (n1 \<noteq> n2 \<and> sprite_filename n1 = sprite_filename n2
       \<and> frame_str_of d1 = Some f1 \<and> frame_str_of d2 = Some f2
       \<and> parse_rect_string f1 = Inr (x1, y1, w1, h1) \<and> parse_rect_string f2 = Inr (x2, y2, w2, h2)
       \<and> crop lib img (x1, y1, x1 + w1, y1 + h1) = Inr s1
       \<and> crop lib img (x2, y2, x2 + w2, y2 + h2) = Inr s2
       \<and> save lib (output_dir st) (sprite_filename n1) s1
           = Inr ((output_dir st)(sprite_filename n1 \<mapsto> s1))
       \<and> save lib ((output_dir st)(sprite_filename n1 \<mapsto> s1)) (sprite_filename n2) s2
           = Inr ((output_dir st)(sprite_filename n2 \<mapsto> s2))
      \<longrightarrow> split_loop lib img st [(n1, d1), (n2, d2)] =
            st\<lparr>count := count st + 2,
               printed := printed st @ [Saved (sprite_filename n1), Saved (sprite_filename n1)],
               output_dir := (output_dir st)(sprite_filename n1 \<mapsto> s2)\<rparr>)"
proof (intro conjI impI)
  assume a: "base \<noteq> [] \<and> CHR ''/'' \<notin> set base \<and> ext \<noteq> [] \<and> CHR ''/'' \<notin> set ext \<and> CHR ''.'' \<notin> set ext"
  then show "sprite_filename (dir @ ''/'' @ base @ ''.'' @ ext) = base @ ''.png''"
    using sprite_filename_ext(1) [of base ext dir] by simp
  from a show "sprite_filename (base @ ''.'' @ ext) = base @ ''.png''"
    using sprite_filename_ext(2) [of base ext] by simp
next
  assume a: "base \<noteq> [] \<and> CHR ''/'' \<notin> set base \<and> CHR ''.'' \<notin> set base"
  then show "sprite_filename (dir @ ''/'' @ base) = base @ ''.png''"
    using sprite_filename_plain(1) [of base dir] by simp
  from a show "sprite_filename base = base @ ''.png''"
    using sprite_filename_plain(2) [of base] by simp
next
  assume a: "n1 \<noteq> n2 \<and> sprite_filename n1 = sprite_filename n2
       \<and> frame_str_of d1 = Some f1 \<and> frame_str_of d2 = Some f2
       \<and> parse_rect_string f1 = Inr (x1, y1, w1, h1) \<and> parse_rect_string f2 = Inr (x2, y2, w2, h2)
       \<and> crop lib img (x1, y1, x1 + w1, y1 + h1) = Inr s1
       \<and> crop lib img (x2, y2, x2 + w2, y2 + h2) = Inr s2
       \<and> save lib (output_dir st) (sprite_filename n1) s1
           = Inr ((output_dir st)(sprite_filename n1 \<mapsto> s1))
       \<and> save lib ((output_dir st)(sprite_filename n1 \<mapsto> s1)) (sprite_filename n2) s2
           = Inr ((output_dir st)(sprite_filename n2 \<mapsto> s2))"
  show "split_loop lib img st [(n1, d1), (n2, d2)] =
            st\<lparr>count := count st + 2,
               printed := printed st @ [Saved (sprite_filename n1), Saved (sprite_filename n1)],
               output_dir := (output_dir st)(sprite_filename n1 \<mapsto> s2)\<rparr>"
    by (rule two_saves [where ?x1.0 = x1 and ?y1.0 = y1 and ?w1.0 = w1 and ?h1.0 = h1
          and ?x2.0 = x2 and ?y2.0 = y2 and ?w2.0 = w2 and ?h2.0 = h2 and ?s1.0 = s1 and ?f1.0 = f1
          and ?f2.0 = f2])
      (use a in blast)+
qed

text \<open>Witness of C7: the names \<^verbatim>\<open>idle/1.png\<close> and \<^verbatim>\<open>walk/1.png\<close> both give the file
  \<^verbatim>\<open>1.png\<close>, which holds the second sprite after the run.\<close>

theorem sprite_filename_collision_overwrites_witness:
  "sprite_filename ''idle/1.png'' = ''1.png'' \<and> sprite_filename ''walk/1.png'' = ''1.png''
   \<and> sprite_filename ''hero_0'' = ''hero_0.png''
   \<and> (\<exists>s2. crop pillow example_image (2, 0, 2 + 2, 0 + 2) = Inr s2
         \<and> split_loop pillow example_image \<lparr>count = 0, printed = [], output_dir = Map.empty\<rparr>
              [(''idle/1.png'', PString ''{{0,0},{2,2}}''), (''walk/1.png'', PString ''{{2,0},{2,2}}'')]
            = \<lparr>count = 2, printed = [Saved ''1.png'', Saved ''1.png''],
                output_dir = [''1.png'' \<mapsto> s2]\<rparr>)"
proof -
  let ?st0 = "\<lparr>count = 0, printed = [], output_dir = Map.empty :: string \<rightharpoonup> image\<rparr>"
  let ?n1 = "''idle/1.png''" and ?n2 = "''walk/1.png''"
  let ?d1 = "PString ''{{0,0},{2,2}}''" and ?d2 = "PString ''{{2,0},{2,2}}''"
  have c1: "''1'' \<noteq> [] \<and> CHR ''/'' \<notin> set ''1'' \<and> ''png'' \<noteq> [] \<and> CHR ''/'' \<notin> set ''png''
      \<and> CHR ''.'' \<notin> set ''png''" by simp
  have c2: "''hero_0'' \<noteq> [] \<and> CHR ''/'' \<notin> set ''hero_0'' \<and> CHR ''.'' \<notin> set ''hero_0''" by simp
  from sprite_filename_collision_overwrites
    [of "''1''" "''png''" "''idle''", THEN conjunct1, THEN mp, OF c1, THEN conjunct1]
  have f1: "sprite_filename ?n1 = ''1.png''" by simp
  from sprite_filename_collision_overwrites
    [of "''1''" "''png''" "''walk''", THEN conjunct1, THEN mp, OF c1, THEN conjunct1]
  have f2: "sprite_filename ?n2 = ''1.png''" by simp
  from sprite_filename_collision_overwrites
    [of "''hero_0''", THEN conjunct2, THEN conjunct1, THEN mp, OF c2, THEN conjunct2]
  have f3: "sprite_filename ''hero_0'' = ''hero_0.png''" by simp
  have p1: "parse_rect_string ?d1 = Inr (0, 0, 2, 2)" and p2: "parse_rect_string ?d2 = Inr (2, 0, 2, 2)"
    by code_simp+
  from pillow_crop_size [of 2 2 example_image 0 0]
  obtain s1 where s1: "crop pillow example_image (0, 0, 0 + 2, 0 + 2) = Inr s1" "width s1 = 2" "height s1 = 2"
    by auto
  from pillow_crop_size [of 2 2 example_image 2 0]
  obtain s2 where s2: "crop pillow example_image (2, 0, 2 + 2, 0 + 2) = Inr s2" "width s2 = 2" "height s2 = 2"
    by auto
  have w1: "save pillow (output_dir ?st0) (sprite_filename ?n1) s1
      = Inr ((output_dir ?st0)(sprite_filename ?n1 \<mapsto> s1))"
    using s1(2,3) by (simp add: pillow_save_writes)
  have w2: "save pillow ((output_dir ?st0)(sprite_filename ?n1 \<mapsto> s1)) (sprite_filename ?n2) s2
      = Inr ((output_dir ?st0)(sprite_filename ?n2 \<mapsto> s2))"
    using s2(2,3) f1 f2 by (simp add: pillow_save_writes)
  have hyp: "?n1 \<noteq> ?n2 \<and> sprite_filename ?n1 = sprite_filename ?n2
       \<and> frame_str_of ?d1 = Some ?d1 \<and> frame_str_of ?d2 = Some ?d2
       \<and> parse_rect_string ?d1 = Inr (0, 0, 2, 2) \<and> parse_rect_string ?d2 = Inr (2, 0, 2, 2)
       \<and> crop pillow example_image (0, 0, 0 + 2, 0 + 2) = Inr s1
       \<and> crop pillow example_image (2, 0, 2 + 2, 0 + 2) = Inr s2
       \<and> save pillow (output_dir ?st0) (sprite_filename ?n1) s1
           = Inr ((output_dir ?st0)(sprite_filename ?n1 \<mapsto> s1))
       \<and> save pillow ((output_dir ?st0)(sprite_filename ?n1 \<mapsto> s1)) (sprite_filename ?n2) s2
           = Inr ((output_dir ?st0)(sprite_filename ?n2 \<mapsto> s2))"
    using f1 f2 p1 p2 s1(1) s2(1) w1 w2 by simp
  from sprite_filename_collision_overwrites
    [of _ _ _ ?n1 ?n2 ?d1 ?d1 ?d2 ?d2 0 0 2 2 2 0 2 2 pillow example_image s1 s2 ?st0,
      THEN conjunct2, THEN conjunct2, THEN mp, OF hyp]
  have "split_loop pillow example_image ?st0 [(?n1, ?d1), (?n2, ?d2)] =
            ?st0\<lparr>count := count ?st0 + 2,
               printed := printed ?st0 @ [Saved (sprite_filename ?n1), Saved (sprite_filename ?n1)],
               output_dir := (output_dir ?st0)(sprite_filename ?n1 \<mapsto> s2)\<rparr>"
    by simp
  then have "split_loop pillow example_image ?st0 [(?n1, ?d1), (?n2, ?d2)] =
       \<lparr>count = 2, printed = [Saved ''1.png'', Saved ''1.png''], output_dir = [''1.png'' \<mapsto> s2]\<rparr>"
    by (simp add: f1)
  with s2(1) f1 f2 f3 show ?thesis by blast
qed

subsection \<open>Cropping and saving\<close>

text \<open>Claim C6. For a rect with a positive width and a positive height the crop never
  raises, wherever the rect lies: the program passes the box \<open>(x, y, x + w, y + h)\<close>, and
  the crop is a new image of exactly \<open>w\<close> by \<open>h\<close> pixels, the pixels of the source where
  the box covers it and transparent ones elsewhere. With a well-formed rectangle string
  the extraction of such a rect succeeds and writes the sprite.\<close>

theorem crop_beyond_bounds_never_raises:
  assumes "0 < w" "0 < h"
  shows "\<exists>sprite. crop pillow img (x, y, x + w, y + h) = Inr sprite
           \<and> width sprite = w \<and> height sprite = h
           \<and> pixel_at sprite =
               (\<lambda>i j. if 0 \<le> x + i \<and> x + i < width img \<and> 0 \<le> y + j \<and> y + j < height img
                      then pixel_at img (x + i) (y + j) else (0, 0, 0, 0))
           \<and> (parse_rect_string f = Inr (x, y, w, h) \<longrightarrow>
                extract_sprite pillow img dir n f
                  = Inr (sprite_filename n, dir(sprite_filename n \<mapsto> sprite)))"
  using assms
  by (simp add: pillow_def image_crop_def image_save_def extract_sprite_def)

text \<open>Witness of C6: the rect \<open>(3, 1, 5, 5)\<close> on the 4 by 2 example image.\<close>

theorem crop_beyond_bounds_never_raises_witness:
  "\<exists>sprite. crop pillow example_image (3, 1, 3 + 5, 1 + 5) = Inr sprite
      \<and> width sprite = 5 \<and> height sprite = 5
      \<and> pixel_at sprite 0 0 = (0, 0, 0, 255) \<and> pixel_at sprite 1 0 = (0, 0, 0, 0)"
proof -
  have "(0::int) < 5" by simp
  from crop_beyond_bounds_never_raises [OF this this, of example_image 3 1
      "PString ''{{3,1},{5,5}}''" Map.empty "''s''"]
  obtain sprite where s: "crop pillow example_image (3, 1, 3 + 5, 1 + 5) = Inr sprite"
    "width sprite = 5" "height sprite = 5"
    "pixel_at sprite =
       (\<lambda>i j. if 0 \<le> 3 + i \<and> 3 + i < width example_image \<and> 0 \<le> 1 + j \<and> 1 + j < height example_image
              then pixel_at example_image (3 + i) (1 + j) else (0, 0, 0, 0))"
    by blast
  have "pixel_at sprite 0 0 = (0, 0, 0, 255)" "pixel_at sprite 1 0 = (0, 0, 0, 0)"
    unfolding s(4) by (simp_all add: example_image_def)
  with s(1,2,3) show ?thesis by blast
qed


text \<open>Claim C9. The program itself does not look at the width and the height. A rect of
  width 0 or height 0 is cropped like any other, and the entry fails when the empty
  sprite is saved (or, with a negative other side, when it is cropped): the entry prints
  its error line, the counter and the output directory are as before, the loop goes on
  with the remaining entries, and the run ends normally.\<close>

theorem zero_size_rect_is_entry_error:
  assumes "frame_str_of d = Some f" "parse_rect_string f = Inr (x, y, w, h)" "w = 0 \<or> h = 0"
  shows "\<exists>e. process_entry pillow img st (n, d) = st\<lparr>printed := printed st @ [ErrorProcessing n e]\<rparr>
           \<and> split_loop pillow img st ((n, d) # rest)
               = split_loop pillow img (st\<lparr>printed := printed st @ [ErrorProcessing n e]\<rparr>) rest
           \<and> (\<exists>st'. split_sprites pillow (Inr (PDict [(''frames'', PDict ((n, d) # rest))]))
                       (Inr img) dir = Inr st')"
proof -
  have "\<exists>e. extract_sprite pillow img (output_dir st) n f = Inl e"
    using assms(2,3)
    by (auto simp: extract_sprite_def pillow_def image_crop_def image_save_def)
  then obtain e where e: "extract_sprite pillow img (output_dir st) n f = Inl e" ..
  have 1: "process_entry pillow img st (n, d) = st\<lparr>printed := printed st @ [ErrorProcessing n e]\<rparr>"
    using assms(1) e by (rule process_entry_error)
  have 2: "split_loop pillow img st ((n, d) # rest)
      = split_loop pillow img (st\<lparr>printed := printed st @ [ErrorProcessing n e]\<rparr>) rest"
    unfolding split_loop_Cons 1 ..
  have 3: "\<exists>st'. split_sprites pillow (Inr (PDict [(''frames'', PDict ((n, d) # rest))]))
                       (Inr img) dir = Inr st'"
    by (simp add: split_sprites_def parse_plist_def)
  from 1 2 3 show ?thesis by blast
qed

text \<open>Witness of C9: an entry of width 0 before an entry that is extracted.\<close>

theorem zero_size_rect_is_entry_error_witness:
  "parse_rect_string (PString ''{{1,1},{0,2}}'') = Inr (1, 1, 0, 2)
   \<and> printed (split_loop pillow example_image \<lparr>count = 0, printed = [], output_dir = Map.empty\<rparr>
        [(''flat'', PString ''{{1,1},{0,2}}''), (''b.png'', PString ''{{2,0},{2,2}}'')])
      = [ErrorProcessing ''flat'' (ImagingError ''empty image''), Saved ''b.png'']"
proof -
  let ?st0 = "\<lparr>count = 0, printed = [], output_dir = Map.empty :: string \<rightharpoonup> image\<rparr>"
  let ?rest = "[(''b.png'', PString ''{{2,0},{2,2}}'')]"
  have f: "frame_str_of (PString ''{{1,1},{0,2}}'') = Some (PString ''{{1,1},{0,2}}'')" by simp
  have p: "parse_rect_string (PString ''{{1,1},{0,2}}'') = Inr (1, 1, 0, 2)" by code_simp
  have z: "(0::int) = 0 \<or> (2::int) = 0" by simp
  from zero_size_rect_is_entry_error [OF f p z, of example_image ?st0 "''flat''" ?rest Map.empty]
  obtain e where e:
    "process_entry pillow example_image ?st0 (''flat'', PString ''{{1,1},{0,2}}'')
       = ?st0\<lparr>printed := printed ?st0 @ [ErrorProcessing ''flat'' e]\<rparr>"
    "split_loop pillow example_image ?st0 ((''flat'', PString ''{{1,1},{0,2}}'') # ?rest)
       = split_loop pillow example_image (?st0\<lparr>printed := printed ?st0 @ [ErrorProcessing ''flat'' e]\<rparr>) ?rest"
    by (elim exE conjE)
  have "printed (process_entry pillow example_image ?st0 (''flat'', PString ''{{1,1},{0,2}}''))
      = [ErrorProcessing ''flat'' (ImagingError ''empty image'')]"
    by code_simp
  with e(1) have "e = ImagingError ''empty image''" by simp
  moreover have "printed (split_loop pillow example_image
       (?st0\<lparr>printed := printed ?st0 @ [ErrorProcessing ''flat'' (ImagingError ''empty image'')]\<rparr>) ?rest)
     = [ErrorProcessing ''flat'' (ImagingError ''empty image''), Saved ''b.png'']"
    by code_simp
  ultimately show ?thesis using e(2) p by simp
qed

end
